theory Spec2Isabelle
  imports Complex_Main "HOL-Library.Word" "HOL-Library.AList"
begin

section \<open>JavaScript values\<close>

text \<open>
  A JavaScript string is a sequence of UTF-16 code units; \<open>length\<close>, \<open>slice\<close> and
  \<open>trim\<close> all count code units.
\<close>

type_synonym jsstring = "16 word list"

definition ascii :: "string \<Rightarrow> jsstring" where
  "ascii s = map (\<lambda>c. of_nat (of_char c)) s"

text \<open>
  The values that reach the server as JSON (a request body parsed by \<open>express.json()\<close>, the
  storage file parsed by \<open>JSON.parse\<close>), plus \<open>undefined\<close> for an absent property. An
  array or object carries the heap reference it was allocated at: \<open>===\<close> on two of them
  compares references, and a reference stands for one content throughout, so HOL equality
  is \<open>===\<close>. Numbers are the finite values of a JSON literal.
\<close>

datatype jsval =
    JUndefined
  | JNull
  | JBool bool
  | JNum rat
  | JStr jsstring
  | JArr nat "jsval list"
  | JObj nat "(jsstring \<times> jsval) list"

text \<open>ToBoolean: what \<open>!v\<close>, \<open>v || d\<close> and \<open>if (v)\<close> test.\<close>

fun truthy :: "jsval \<Rightarrow> bool" where
  "truthy JUndefined = False"
| "truthy JNull = False"
| "truthy (JBool b) = b"
| "truthy (JNum n) = (n \<noteq> 0)"
| "truthy (JStr s) = (s \<noteq> [])"
| "truthy (JArr _ _) = True"
| "truthy (JObj _ _) = True"

text \<open>
  The code units \<open>String.prototype.trim\<close> strips: ECMAScript WhiteSpace (TAB, VT, FF,
  U+FEFF and the Unicode space separators) and LineTerminator (LF, CR, U+2028, U+2029).
\<close>

definition is_ws :: "16 word \<Rightarrow> bool" where
  "is_ws c \<longleftrightarrow>
     c \<in> set [0x09, 0x0A, 0x0B, 0x0C, 0x0D, 0x20, 0xA0, 0x1680,
               0x2000, 0x2001, 0x2002, 0x2003, 0x2004, 0x2005, 0x2006, 0x2007,
               0x2008, 0x2009, 0x200A, 0x2028, 0x2029, 0x202F, 0x205F, 0x3000, 0xFEFF]"

definition trim :: "jsstring \<Rightarrow> jsstring" where
  "trim s = rev (dropWhile is_ws (rev (dropWhile is_ws s)))"

section \<open>Metadata store\<close>

text \<open>
  An element of a \<open>screenshots\<close> array: a record \<open>{ fileName, capturedAt }\<close> made by
  \<open>addScreenshotRecord\<close>, or whatever value the storage file held at that position.
\<close>

datatype shot =
    Shot jsstring jsstring
  | Loaded jsval

text \<open>
  An element of \<open>savedStreams\<close>. \<open>loadSavedStreams\<close> copies the fields of the storage file
  unchecked, so every field but \<open>screenshots\<close> can hold any value.
\<close>

record savedStream =
  rtspUrl :: jsval
  lastStreamId :: jsval
  lastStartedAt :: jsval
  label :: jsval
  notesText :: jsval
  screenshots :: "shot list"

subsection \<open>loadSavedStreams\<close>

text \<open>
  What the storage file holds at startup, as the three calls of \<open>loadSavedStreams\<close> see it:
  \<open>fs.existsSync\<close> is false; \<open>fs.readFileSync\<close> throws; \<open>JSON.parse\<close> throws; or
  \<open>JSON.parse\<close> returns a value.
\<close>

datatype storage = Missing | Unreadable | Unparseable | Parsed jsval

datatype exn = IOError | SyntaxError | TypeError

text \<open>
  Reading a property \<open>v.k\<close> of a value that is neither \<open>null\<close> nor \<open>undefined\<close> (on
  those the read throws a TypeError, see \<open>load_one\<close>), for the six keys read here: an
  object has it or not; no array, string, number or boolean has one of them.
\<close>

fun getprop :: "jsval \<Rightarrow> string \<Rightarrow> jsval" where
  "getprop (JObj _ kvs) k = (case map_of kvs (ascii k) of None \<Rightarrow> JUndefined | Some v \<Rightarrow> v)"
| "getprop _ k = JUndefined"

text \<open>
  The arrow function given to \<open>parsed.map\<close>. Its first property read, \<open>stream.rtspUrl\<close>,
  throws on a \<open>null\<close> element.
\<close>

definition load_one :: "jsval \<Rightarrow> exn + savedStream" where
  "load_one stream =
     (case stream of
        JUndefined \<Rightarrow> Inl TypeError
      | JNull \<Rightarrow> Inl TypeError
      | _ \<Rightarrow>
          Inr \<lparr> rtspUrl = getprop stream ''rtspUrl'',
                lastStreamId = getprop stream ''lastStreamId'',
                lastStartedAt = getprop stream ''lastStartedAt'',
                label = (let l = getprop stream ''label'' in if truthy l then l else JStr []),
                notesText = (let n = getprop stream ''notes'' in if truthy n then n else JStr []),
                screenshots =
                  (case getprop stream ''screenshots'' of JArr _ xs \<Rightarrow> map Loaded xs | _ \<Rightarrow> []) \<rparr>)"

text \<open>\<open>Array.prototype.map\<close> with a callback that may throw: the first throw ends it.\<close>

fun map_throwing :: "('a \<Rightarrow> exn + 'b) \<Rightarrow> 'a list \<Rightarrow> exn + 'b list" where
  "map_throwing f [] = Inr []"
| "map_throwing f (x # xs) =
     (case f x of
        Inl e \<Rightarrow> Inl e
      | Inr y \<Rightarrow> (case map_throwing f xs of Inl e \<Rightarrow> Inl e | Inr ys \<Rightarrow> Inr (y # ys)))"

text \<open>The body of the \<open>try\<close> block.\<close>

fun load_try :: "storage \<Rightarrow> exn + savedStream list" where
  "load_try Missing = Inl IOError"
| "load_try Unreadable = Inl IOError"
| "load_try Unparseable = Inl SyntaxError"
| "load_try (Parsed (JArr r xs)) = map_throwing load_one xs"
| "load_try (Parsed _) = Inr []"

text \<open>
  The whole function: \<open>Inl\<close> would be an exception that reaches the caller. The \<open>catch\<close>
  logs and returns the empty array.
\<close>

definition loadSavedStreams :: "storage \<Rightarrow> exn + savedStream list" where
  "loadSavedStreams file =
     (if file = Missing then Inr []
      else case load_try file of Inl err \<Rightarrow> Inr [] | Inr streams \<Rightarrow> Inr streams)"

subsection \<open>sanitizeText\<close>

definition sanitizeText :: "jsval \<Rightarrow> nat \<Rightarrow> jsstring" where
  "sanitizeText v maxLength =
     (case v of
        JStr s \<Rightarrow> (let trimmed = trim s
                   in if length trimmed > maxLength then take maxLength trimmed else trimmed)
      | _ \<Rightarrow> [])"

subsection \<open>Updating the in-memory list\<close>

text \<open>
  \<open>savedStreams.find(p)\<close> is \<^const>\<open>List.find\<close>: the first element that satisfies \<open>p\<close>. The
  result is a reference into the array, so an assignment to one of its fields changes
  that element in place.
\<close>

fun modify_first :: "('a \<Rightarrow> bool) \<Rightarrow> ('a \<Rightarrow> 'a) \<Rightarrow> 'a list \<Rightarrow> 'a list" where
  "modify_first p f [] = []"
| "modify_first p f (x # xs) = (if p x then f x # xs else x # modify_first p f xs)"

text \<open>
  \<open>upsertSavedStream\<close> without its last line (\<open>persistSavedStreams()\<close>): the effect on the
  array. \<open>now\<close> is \<open>new Date().toISOString()\<close>.
\<close>

definition upsert_list ::
  "jsval \<Rightarrow> jsstring \<Rightarrow> jsval \<Rightarrow> jsval \<Rightarrow> jsstring \<Rightarrow> savedStream list \<Rightarrow> savedStream list" where
  "upsert_list url streamId mlabel mnotes now saved =
     (let lbl = sanitizeText mlabel 60;
          nts = sanitizeText mnotes 280
      in case List.find (\<lambda>stream. rtspUrl stream = url) saved of
           Some existing \<Rightarrow>
             modify_first (\<lambda>stream. rtspUrl stream = url)
               (\<lambda>e. let e1 = e\<lparr> lastStreamId := JStr streamId, lastStartedAt := JStr now \<rparr>;
                        e2 = (if lbl \<noteq> [] then e1\<lparr> label := JStr lbl \<rparr> else e1)
                    in (if nts \<noteq> [] then e2\<lparr> notesText := JStr nts \<rparr> else e2))
               saved
         | None \<Rightarrow>
             saved @ [\<lparr> rtspUrl = url, lastStreamId = JStr streamId, lastStartedAt = JStr now,
                        label = JStr lbl, notesText = JStr nts, screenshots = [] \<rparr>])"

text \<open>
  The same for the handler of \<open>POST /saved-streams/update\<close>, after its guard: the new
  array, and the record \<open>existing\<close> that the response carries.
\<close>

definition update_list ::
  "jsval \<Rightarrow> jsval \<Rightarrow> jsval \<Rightarrow> savedStream list \<Rightarrow> savedStream \<times> savedStream list" where
  "update_list url blabel bnotes saved =
     (let safeLabel = sanitizeText blabel 60;
          safeNotes = sanitizeText bnotes 280
      in case List.find (\<lambda>stream. rtspUrl stream = url) saved of
           None \<Rightarrow>
             (let existing = \<lparr> rtspUrl = url, lastStreamId = JNull, lastStartedAt = JNull,
                               label = JStr safeLabel, notesText = JStr safeNotes,
                               screenshots = [] \<rparr>
              in (existing, saved @ [existing]))
         | Some existing \<Rightarrow>
             (existing\<lparr> label := JStr safeLabel, notesText := JStr safeNotes \<rparr>,
              modify_first (\<lambda>stream. rtspUrl stream = url)
                (\<lambda>e. e\<lparr> label := JStr safeLabel, notesText := JStr safeNotes \<rparr>) saved))"

text \<open>
  \<open>addScreenshotRecord\<close> without its last line: \<open>unshift\<close> puts the new record in front,
  and \<open>screenshots.length = 20\<close> drops everything from index 20 on.
\<close>

definition add_shot :: "shot \<Rightarrow> shot list \<Rightarrow> shot list" where
  "add_shot r shots =
     (let shots1 = r # shots in if length shots1 > 20 then take 20 shots1 else shots1)"

definition addshot_list ::
  "jsval \<Rightarrow> jsstring \<Rightarrow> jsstring \<Rightarrow> jsstring \<Rightarrow> savedStream list \<Rightarrow> savedStream list" where
  "addshot_list url streamId fileName now saved =
     (let saved1 =
            (case List.find (\<lambda>stream. rtspUrl stream = url) saved of
               None \<Rightarrow>
                 saved @ [\<lparr> rtspUrl = url, lastStreamId = JStr streamId,
                            lastStartedAt = JStr now, label = JStr [], notesText = JStr [],
                            screenshots = [] \<rparr>]
             | Some existing \<Rightarrow> saved)
      in modify_first (\<lambda>stream. rtspUrl stream = url)
           (\<lambda>e. e\<lparr> screenshots := add_shot (Shot fileName now) (screenshots e) \<rparr>) saved1)"

section \<open>Sessions\<close>

subsection \<open>The work directories\<close>

text \<open>
  The paths the server touches under its own directory. A stream id comes from \<open>uuidv4()\<close>
  (hexadecimal digits and dashes), so \<open>path.join(__dirname, 'streams', streamId)\<close> is one
  directory per id; the files of a session lie directly in it.
\<close>

datatype path =
    StreamsDir
  | StreamDir jsstring
  | StreamFile jsstring string
  | CapturesDir

fun ancestors :: "path \<Rightarrow> path set" where
  "ancestors (StreamFile sid f) = {StreamDir sid, StreamsDir}"
| "ancestors (StreamDir sid) = {StreamsDir}"
| "ancestors StreamsDir = {}"
| "ancestors CapturesDir = {}"

text \<open>
  The disk is the set of paths that exist: \<open>fs.existsSync p\<close> is \<open>p \<in> disk\<close>. Making and
  removing a directory are taken to succeed.
\<close>

definition mkdirSync_recursive :: "path \<Rightarrow> path set \<Rightarrow> path set" where
  "mkdirSync_recursive d disk = insert d (ancestors d \<union> disk)"

definition rmSync_recursive :: "path \<Rightarrow> path set \<Rightarrow> path set" where
  "rmSync_recursive d disk = {p \<in> disk. p \<noteq> d \<and> d \<notin> ancestors p}"

definition ensureDirectoryExists :: "path \<Rightarrow> path set \<Rightarrow> path set" where
  "ensureDirectoryExists dirPath disk =
     (if dirPath \<notin> disk then mkdirSync_recursive dirPath disk else disk)"

subsection \<open>State\<close>

text \<open>
  The transcoding process behind a fluent-ffmpeg command object, as the server can tell:
  not yet spawned (\<open>run()\<close> returns before the library spawns the child); running; sent
  SIGTERM and not yet gone; gone. \<open>kill\<close> is the library's: it signals the child process
  if there is one, and otherwise only logs a warning.
\<close>

datatype proc = Unspawned | Running | Terminating | Exited

fun kill :: "proc \<Rightarrow> proc" where
  "kill Unspawned = Unspawned"
| "kill Running = Terminating"
| "kill Terminating = Terminating"
| "kill Exited = Exited"

text \<open>A value of \<open>activeStreams\<close>; \<open>ffmpegProcess\<close> is the number of the process.\<close>

record streamInfo =
  info_rtspUrl :: jsval
  info_label :: jsstring
  info_notes :: jsstring
  ffmpegProcess :: nat
  streamDir :: path
  playlistPath :: path
  startTime :: int

text \<open>
  The variable \<open>pollTimer\<close> or \<open>timeoutTimer\<close>: \<open>null\<close>, or a timer object, which is
  scheduled (\<open>Timer True\<close>) until it is cleared or, for a timeout, has fired.
\<close>

datatype timer = NoTimer | Timer bool

fun clearTimer :: "timer \<Rightarrow> timer" where
  "clearTimer NoTimer = NoTimer"
| "clearTimer (Timer _) = Timer False"

text \<open>
  The closure of one run of the \<open>POST /start-stream\<close> handler past its guard: the
  variables its callbacks share.
\<close>

record startRequest =
  req_rtspUrl :: jsval
  req_label :: jsval
  req_notes :: jsval
  req_streamId :: jsstring
  req_playlistPath :: path
  responded :: bool
  pollTimer :: timer
  timeoutTimer :: timer

text \<open>The same for \<open>POST /screenshot/:streamId\<close>, once the extraction runs.\<close>

record captureRequest =
  cap_rtspUrl :: jsval
  cap_streamId :: jsstring
  cap_fileName :: jsstring

text \<open>
  The JSON bodies of the responses, and a response with its status code. \<open>UncaughtBody\<close> is
  the page that Express sends, with status 500, when a handler throws.
\<close>

datatype body =
    ErrorBody string
  | StartedBody jsstring jsstring jsstring
  | StoppedBody
  | SavedBody savedStream
  | CapturedBody jsstring
  | UncaughtBody

datatype response = Response nat body

text \<open>
  Requests are numbered as they arrive; a start request's number also names its closure and
  its process, a screenshot request's number its extraction. \<open>savedFile\<close> is the storage
  file: \<open>None\<close> while it is as it was at startup, else the array last written to it.
\<close>

record state =
  activeStreams :: "(jsstring \<times> streamInfo) list"
  savedStreams :: "savedStream list"
  savedFile :: "savedStream list option"
  disk :: "path set"
  procs :: "nat \<rightharpoonup> proc"
  pending :: "nat \<rightharpoonup> startRequest"
  captures :: "nat \<rightharpoonup> captureRequest"
  responses :: "(nat \<times> response) list"
  next_req :: nat

text \<open>\<open>res.status(status).json(payload)\<close> on the response object of request \<open>rid\<close>.\<close>

definition respond :: "nat \<Rightarrow> nat \<Rightarrow> body \<Rightarrow> state \<Rightarrow> state" where
  "respond rid status payload s = s\<lparr> responses := responses s @ [(rid, Response status payload)] \<rparr>"

text \<open>The module's top level: both registries, then the two directories.\<close>

definition startup :: "savedStream list \<Rightarrow> path set \<Rightarrow> state" where
  "startup loaded disk0 =
     \<lparr> activeStreams = [], savedStreams = loaded, savedFile = None,
       disk = ensureDirectoryExists CapturesDir (ensureDirectoryExists StreamsDir disk0),
       procs = Map.empty, pending = Map.empty, captures = Map.empty,
       responses = [], next_req = 0 \<rparr>"

subsection \<open>The functions that change the metadata store\<close>

text \<open>
  \<open>fs.writeFileSync\<close> may throw; \<open>write_ok\<close> says whether this call succeeds. The \<open>catch\<close>
  only logs.
\<close>

definition persistSavedStreams :: "bool \<Rightarrow> state \<Rightarrow> state" where
  "persistSavedStreams write_ok s =
     (if write_ok then s\<lparr> savedFile := Some (savedStreams s) \<rparr> else s)"

definition upsertSavedStream ::
  "jsval \<Rightarrow> jsstring \<Rightarrow> jsval \<Rightarrow> jsval \<Rightarrow> jsstring \<Rightarrow> bool \<Rightarrow> state \<Rightarrow> state" where
  "upsertSavedStream url streamId mlabel mnotes now write_ok s =
     persistSavedStreams write_ok
       (s\<lparr> savedStreams := upsert_list url streamId mlabel mnotes now (savedStreams s) \<rparr>)"

definition addScreenshotRecord ::
  "jsval \<Rightarrow> jsstring \<Rightarrow> jsstring \<Rightarrow> jsstring \<Rightarrow> bool \<Rightarrow> state \<Rightarrow> state" where
  "addScreenshotRecord url streamId fileName now write_ok s =
     persistSavedStreams write_ok
       (s\<lparr> savedStreams := addshot_list url streamId fileName now (savedStreams s) \<rparr>)"

subsection \<open>cleanupStream and finalize\<close>

text \<open>
  \<open>activeStreams\<close> is a \<open>Map\<close>: \<open>get\<close> is \<^const>\<open>map_of\<close>, \<open>set\<close> is
  \<^const>\<open>AList.update\<close> (a new key goes last, an old one keeps its place) and \<open>delete\<close> is
  \<^const>\<open>AList.delete\<close>. The test \<open>if (streamInfo.ffmpegProcess)\<close> is on an object, so it
  always passes.
\<close>

definition cleanupStream :: "jsstring \<Rightarrow> state \<Rightarrow> state" where
  "cleanupStream streamId s =
     (case map_of (activeStreams s) streamId of
        None \<Rightarrow> s
      | Some streamInfo \<Rightarrow>
          s\<lparr> procs := (procs s)(ffmpegProcess streamInfo :=
                         map_option kill (procs s (ffmpegProcess streamInfo))),
             disk := (if StreamDir streamId \<in> disk s
                      then rmSync_recursive (StreamDir streamId) (disk s) else disk s),
             activeStreams := AList.delete streamId (activeStreams s) \<rparr>)"

text \<open>\<open>finalize\<close> of the start request \<open>rid\<close>.\<close>

definition finalize :: "nat \<Rightarrow> nat \<Rightarrow> body \<Rightarrow> state \<Rightarrow> state" where
  "finalize rid status payload s =
     (case pending s rid of
        None \<Rightarrow> s
      | Some c \<Rightarrow>
          if responded c then s
          else respond rid status payload
                 (s\<lparr> pending := (pending s)(rid \<mapsto>
                       c\<lparr> responded := True,
                          pollTimer := clearTimer (pollTimer c),
                          timeoutTimer := clearTimer (timeoutTimer c) \<rparr>) \<rparr>))"

subsection \<open>POST /start-stream\<close>

text \<open>
  Whether the chain \<open>ffmpeg(rtspUrl).inputOptions(...)\<close> up to \<open>.output(playlistPath)\<close>
  builds the command or throws. The library takes a string as the input. It takes an
  object without a key \<open>readable\<close> as its options and then reads the input from the
  option \<open>source\<close>: a string there is the input, anything else that is truthy is refused
  (\<open>Invalid input\<close>), and with no input \<open>inputOptions\<close> throws (\<open>No input specified\<close>).
  Every other value is refused as an input.
\<close>

fun command_builds :: "jsval \<Rightarrow> bool" where
  "command_builds (JStr s) = True"
| "command_builds (JObj r kvs) =
     (map_of kvs (ascii ''readable'') = None \<and>
      (case map_of kvs (ascii ''source'') of Some (JStr src) \<Rightarrow> src \<noteq> [] | _ \<Rightarrow> False))"
| "command_builds _ = False"

text \<open>
  The handler up to its last line. \<open>streamId\<close> is the value of \<open>uuidv4()\<close> and \<open>nowMs\<close>
  that of \<open>Date.now()\<close>. When the command does not build, the handler has made the work
  directory and nothing else, and Express answers for it. When it builds, \<open>run()\<close> returns
  with the child process still to be spawned, and the library emits its events later,
  each as a callback of its own.
\<close>

definition start_stream :: "jsval \<Rightarrow> jsval \<Rightarrow> jsval \<Rightarrow> jsstring \<Rightarrow> int \<Rightarrow> state \<Rightarrow> state" where
  "start_stream url blabel bnotes streamId nowMs s =
     (let rid = next_req s;
          s0 = s\<lparr> next_req := Suc rid \<rparr>
      in if \<not> truthy url then respond rid 400 (ErrorBody ''RTSP URL is required'') s0
         else if \<not> command_builds url
         then respond rid 500 UncaughtBody
                (s0\<lparr> disk := ensureDirectoryExists (StreamDir streamId) (disk s0) \<rparr>)
         else
           s0\<lparr> disk := ensureDirectoryExists (StreamDir streamId) (disk s0),
               procs := (procs s0)(rid \<mapsto> Unspawned),
               activeStreams :=
                 AList.update streamId
                   \<lparr> info_rtspUrl = url,
                     info_label = sanitizeText blabel 60,
                     info_notes = sanitizeText bnotes 280,
                     ffmpegProcess = rid,
                     streamDir = StreamDir streamId,
                     playlistPath = StreamFile streamId ''playlist.m3u8'',
                     startTime = nowMs \<rparr>
                   (activeStreams s0),
               pending := (pending s0)(rid \<mapsto>
                   \<lparr> req_rtspUrl = url, req_label = blabel, req_notes = bnotes,
                     req_streamId = streamId,
                     req_playlistPath = StreamFile streamId ''playlist.m3u8'',
                     responded = False,
                     pollTimer = Timer True,
                     timeoutTimer = Timer True \<rparr>) \<rparr>)"

text \<open>
  The \<open>start\<close> event of the command of start request \<open>rid\<close>: the library has spawned the
  child process. The callback only logs.
\<close>

definition on_start :: "nat \<Rightarrow> state \<Rightarrow> state" where
  "on_start rid s =
     (if procs s rid = Some Unspawned then s\<lparr> procs := (procs s)(rid \<mapsto> Running) \<rparr> else s)"

text \<open>
  The four other callbacks of start request \<open>rid\<close>. A timer's callback runs only while the timer
  is scheduled, and a timeout is no longer scheduled once it fires. An \<open>error\<close> or \<open>end\<close>
  event tells that the process is gone.
\<close>

definition on_error :: "nat \<Rightarrow> state \<Rightarrow> state" where
  "on_error rid s =
     (case pending s rid of
        None \<Rightarrow> s
      | Some c \<Rightarrow>
          finalize rid 500
            (ErrorBody ''Failed to start stream - check RTSP URL and credentials'')
            (cleanupStream (req_streamId c) (s\<lparr> procs := (procs s)(rid \<mapsto> Exited) \<rparr>)))"

definition on_end :: "nat \<Rightarrow> state \<Rightarrow> state" where
  "on_end rid s =
     (case pending s rid of
        None \<Rightarrow> s
      | Some c \<Rightarrow>
          finalize rid 500 (ErrorBody ''Stream ended before startup completed'')
            (cleanupStream (req_streamId c) (s\<lparr> procs := (procs s)(rid \<mapsto> Exited) \<rparr>)))"

definition on_poll :: "nat \<Rightarrow> jsstring \<Rightarrow> bool \<Rightarrow> state \<Rightarrow> state" where
  "on_poll rid now write_ok s =
     (case pending s rid of
        None \<Rightarrow> s
      | Some c \<Rightarrow>
          if pollTimer c \<noteq> Timer True then s
          else if req_playlistPath c \<in> disk s then
            finalize rid 200
              (StartedBody (req_streamId c) (sanitizeText (req_label c) 60)
                 (sanitizeText (req_notes c) 280))
              (upsertSavedStream (req_rtspUrl c) (req_streamId c) (req_label c) (req_notes c)
                 now write_ok s)
          else s)"

definition on_timeout :: "nat \<Rightarrow> state \<Rightarrow> state" where
  "on_timeout rid s =
     (case pending s rid of
        None \<Rightarrow> s
      | Some c \<Rightarrow>
          if timeoutTimer c \<noteq> Timer True then s
          else
            finalize rid 500 (ErrorBody ''Stream startup timed out'')
              (cleanupStream (req_streamId c)
                 (s\<lparr> pending := (pending s)(rid \<mapsto> c\<lparr> timeoutTimer := Timer False \<rparr>) \<rparr>)))"

text \<open>
  The process of start request \<open>rid\<close> writes its playlist: it can while it lives and its
  directory is there.
\<close>

definition playlist_written :: "nat \<Rightarrow> state \<Rightarrow> state" where
  "playlist_written rid s =
     (case pending s rid of
        None \<Rightarrow> s
      | Some c \<Rightarrow>
          if procs s rid \<in> {Some Running, Some Terminating} \<and> StreamDir (req_streamId c) \<in> disk s
          then s\<lparr> disk := insert (req_playlistPath c) (disk s) \<rparr>
          else s)"

subsection \<open>POST /stop-stream/:streamId\<close>

definition stop_stream :: "jsstring \<Rightarrow> state \<Rightarrow> state" where
  "stop_stream streamId s =
     (let rid = next_req s;
          s0 = s\<lparr> next_req := Suc rid \<rparr>
      in if map_of (activeStreams s0) streamId \<noteq> None
         then respond rid 200 StoppedBody (cleanupStream streamId s0)
         else respond rid 404 (ErrorBody ''Stream not found'') s0)"

subsection \<open>POST /saved-streams/update\<close>

definition saved_streams_update :: "jsval \<Rightarrow> jsval \<Rightarrow> jsval \<Rightarrow> bool \<Rightarrow> state \<Rightarrow> state" where
  "saved_streams_update url blabel bnotes write_ok s =
     (let rid = next_req s;
          s0 = s\<lparr> next_req := Suc rid \<rparr>
      in if \<not> truthy url then respond rid 400 (ErrorBody ''RTSP URL is required'') s0
         else case update_list url blabel bnotes (savedStreams s0) of
                (existing, saved) \<Rightarrow>
                  respond rid 200 (SavedBody existing)
                    (persistSavedStreams write_ok (s0\<lparr> savedStreams := saved \<rparr>)))"

subsection \<open>POST /screenshot/:streamId\<close>

text \<open>\<open>now\<close> is \<open>new Date().toISOString()\<close>; the regular expression replaces \<open>:\<close> and \<open>.\<close>.\<close>

definition capture_fileName :: "jsstring \<Rightarrow> jsstring \<Rightarrow> jsstring" where
  "capture_fileName streamId now =
     streamId @ ascii ''-'' @ map (\<lambda>c. if c = 0x3A \<or> c = 0x2E then 0x2D else c) now
       @ ascii ''.jpg''"

definition screenshot :: "jsstring \<Rightarrow> jsstring \<Rightarrow> state \<Rightarrow> state" where
  "screenshot streamId now s =
     (let rid = next_req s;
          s0 = s\<lparr> next_req := Suc rid \<rparr>
      in case map_of (activeStreams s0) streamId of
           None \<Rightarrow> respond rid 404 (ErrorBody ''Stream not found'') s0
         | Some streamInfo \<Rightarrow>
             if playlistPath streamInfo \<notin> disk s0
             then respond rid 400 (ErrorBody ''Stream playlist not ready'') s0
             else s0\<lparr> captures := (captures s0)(rid \<mapsto>
                        \<lparr> cap_rtspUrl = info_rtspUrl streamInfo,
                          cap_streamId = streamId,
                          cap_fileName = capture_fileName streamId now \<rparr>) \<rparr>)"

text \<open>
  The two callbacks of the extraction of screenshot request \<open>rid\<close>. The image itself is
  written by the extraction process, into a directory that nothing here reads.
\<close>

definition on_capture_end :: "nat \<Rightarrow> jsstring \<Rightarrow> bool \<Rightarrow> state \<Rightarrow> state" where
  "on_capture_end rid now write_ok s =
     (case captures s rid of
        None \<Rightarrow> s
      | Some c \<Rightarrow>
          respond rid 200 (CapturedBody (cap_fileName c))
            (addScreenshotRecord (cap_rtspUrl c) (cap_streamId c) (cap_fileName c) now write_ok s))"

definition on_capture_error :: "nat \<Rightarrow> state \<Rightarrow> state" where
  "on_capture_error rid s =
     (case captures s rid of
        None \<Rightarrow> s
      | Some c \<Rightarrow> respond rid 500 (ErrorBody ''Failed to capture screenshot'') s)"

subsection \<open>GET /streams\<close>

definition streams_listing :: "int \<Rightarrow> state \<Rightarrow> (jsstring \<times> jsval \<times> int \<times> int) list" where
  "streams_listing nowMs s =
     map (\<lambda>(id, info). (id, info_rtspUrl info, startTime info, nowMs - startTime info))
       (activeStreams s)"

subsection \<open>Runs\<close>

text \<open>
  Everything runs on one thread, so a run of the server is a sequence of handlers and
  callbacks, each run to its end, in any order. The two \<open>GET\<close> handlers that only read
  the registries, and the \<open>SIGINT\<close> handler, which ends the server, are not steps.
\<close>

datatype event =
    StartStream jsval jsval jsval jsstring int
  | FfmpegStart nat
  | FfmpegError nat
  | FfmpegEnd nat
  | PollTick nat jsstring bool
  | TimeoutFire nat
  | PlaylistWritten nat
  | StopStream jsstring
  | UpdateSaved jsval jsval jsval bool
  | Screenshot jsstring jsstring
  | CaptureEnd nat jsstring bool
  | CaptureError nat

fun step :: "event \<Rightarrow> state \<Rightarrow> state" where
  "step (StartStream url blabel bnotes streamId nowMs) s =
     start_stream url blabel bnotes streamId nowMs s"
| "step (FfmpegStart rid) s = on_start rid s"
| "step (FfmpegError rid) s = on_error rid s"
| "step (FfmpegEnd rid) s = on_end rid s"
| "step (PollTick rid now write_ok) s = on_poll rid now write_ok s"
| "step (TimeoutFire rid) s = on_timeout rid s"
| "step (PlaylistWritten rid) s = playlist_written rid s"
| "step (StopStream streamId) s = stop_stream streamId s"
| "step (UpdateSaved url blabel bnotes write_ok) s = saved_streams_update url blabel bnotes write_ok s"
| "step (Screenshot streamId now) s = screenshot streamId now s"
| "step (CaptureEnd rid now write_ok) s = on_capture_end rid now write_ok s"
| "step (CaptureError rid) s = on_capture_error rid s"

definition run :: "event list \<Rightarrow> state \<Rightarrow> state" where
  "run evs s = fold step evs s"

text \<open>The responses sent on request \<open>rid\<close>, in order.\<close>

definition answers :: "nat \<Rightarrow> state \<Rightarrow> response list" where
  "answers rid s = map snd (filter (\<lambda>(r, _). r = rid) (responses s))"

section \<open>Notions used in the statements\<close>

text \<open>\<open>Array.isArray\<close>.\<close>

fun isArray :: "jsval \<Rightarrow> bool" where
  "isArray (JArr _ _) = True"
| "isArray _ = False"

text \<open>
  An input that counts as no text: not a string, or a string of whitespace only (the
  empty string among them).
\<close>

fun blank :: "jsval \<Rightarrow> bool" where
  "blank (JStr s) = list_all is_ws s"
| "blank _ = True"

text \<open>The record of a URL, as \<open>find\<close> gives it, and its screenshots (none without a record).\<close>

definition record_of :: "jsval \<Rightarrow> savedStream list \<Rightarrow> savedStream option" where
  "record_of url saved = List.find (\<lambda>stream. rtspUrl stream = url) saved"

definition shots_of :: "jsval \<Rightarrow> savedStream list \<Rightarrow> shot list" where
  "shots_of url saved = (case record_of url saved of None \<Rightarrow> [] | Some r \<Rightarrow> screenshots r)"

text \<open>Every screenshot entry of the store, record after record.\<close>

definition all_shots :: "state \<Rightarrow> shot list" where
  "all_shots s = concat (map screenshots (savedStreams s))"

text \<open>
  A property \<open>P\<close> of a text and its bound, for every label and every notes that the server
  holds: those of the records of the metadata store, which have it when they are strings
  with it, and those of the registry.
\<close>

fun stored_text :: "(nat \<Rightarrow> jsstring \<Rightarrow> bool) \<Rightarrow> nat \<Rightarrow> jsval \<Rightarrow> bool" where
  "stored_text P m (JStr t) = P m t"
| "stored_text P m _ = False"

definition texts_all :: "(nat \<Rightarrow> jsstring \<Rightarrow> bool) \<Rightarrow> state \<Rightarrow> bool" where
  "texts_all P s \<longleftrightarrow>
     list_all (\<lambda>r. stored_text P 60 (label r) \<and> stored_text P 280 (notesText r)) (savedStreams s)
     \<and> list_all (\<lambda>(id, info). P 60 (info_label info) \<and> P 280 (info_notes info))
           (activeStreams s)"

text \<open>Every label the server holds has at most 60 code units, and all notes at most 280.\<close>

definition texts_bounded :: "state \<Rightarrow> bool" where
  "texts_bounded s \<longleftrightarrow> texts_all (\<lambda>m t. length t \<le> m) s"


text \<open>The three outcomes of a start request, read off its response.\<close>

datatype outcome = Ready | Failed | TimedOut

fun outcome_of :: "response \<Rightarrow> outcome option" where
  "outcome_of (Response status (StartedBody streamId l n)) = (if status = 200 then Some Ready else None)"
| "outcome_of (Response status (ErrorBody msg)) =
     (if status = 500 \<and> msg = ''Stream startup timed out'' then Some TimedOut
      else if status = 500 \<and> (msg = ''Failed to start stream - check RTSP URL and credentials''
                               \<or> msg = ''Stream ended before startup completed'')
      then Some Failed
      else None)"
| "outcome_of _ = None"

text \<open>Request numbers in use lie below \<open>next_req\<close>.\<close>

definition numbered :: "state \<Rightarrow> bool" where
  "numbered s \<longleftrightarrow>
     list_all (\<lambda>(r, _). r < next_req s) (responses s)
     \<and> (\<forall>r. next_req s \<le> r \<longrightarrow> pending s r = None \<and> captures s r = None)"

text \<open>
  Where start request \<open>rid\<close> stands: unanswered with both timers scheduled, or answered
  once, with one of the three outcomes, and both timers cleared.
\<close>

definition settled_once :: "nat \<Rightarrow> state \<Rightarrow> bool" where
  "settled_once rid s \<longleftrightarrow>
     rid < next_req s \<and> captures s rid = None \<and>
     (case pending s rid of
        None \<Rightarrow> False
      | Some c \<Rightarrow>
          if responded c
          then pollTimer c = Timer False \<and> timeoutTimer c = Timer False
               \<and> (case answers rid s of [r] \<Rightarrow> outcome_of r \<noteq> None | _ \<Rightarrow> False)
          else pollTimer c = Timer True \<and> timeoutTimer c = Timer True \<and> answers rid s = [])"

text \<open>
  A series of successful captures for one URL: each call gives the stream id, the file
  name, the time and whether the write to the storage file succeeds.
\<close>

definition capture_calls ::
  "jsval \<Rightarrow> (jsstring \<times> jsstring \<times> jsstring \<times> bool) list \<Rightarrow> state \<Rightarrow> state" where
  "capture_calls url calls s =
     fold (\<lambda>(streamId, fileName, now, write_ok).
             addScreenshotRecord url streamId fileName now write_ok) calls s"

text \<open>Whether start request \<open>rid\<close> has been answered: its flag \<open>responded\<close>.\<close>

definition answered :: "nat \<Rightarrow> state \<Rightarrow> bool" where
  "answered rid s = (case pending s rid of None \<Rightarrow> False | Some c \<Rightarrow> responded c)"

text \<open>The events that are callbacks of start request \<open>rid\<close>.\<close>

fun callback_of :: "nat \<Rightarrow> event \<Rightarrow> bool" where
  "callback_of rid (FfmpegError r) = (r = rid)"
| "callback_of rid (FfmpegEnd r) = (r = rid)"
| "callback_of rid (PollTick r now ok) = (r = rid)"
| "callback_of rid (TimeoutFire r) = (r = rid)"
| "callback_of rid _ = False"

text \<open>What a start request's closure holds for good, and a request that is followed.\<close>

definition request_of :: "startRequest \<Rightarrow> jsval \<times> jsval \<times> jsval \<times> jsstring \<times> path" where
  "request_of c = (req_rtspUrl c, req_label c, req_notes c, req_streamId c, req_playlistPath c)"

definition tracked :: "nat \<Rightarrow> jsval \<times> jsval \<times> jsval \<times> jsstring \<times> path \<Rightarrow> state \<Rightarrow> bool" where
  "tracked rid R s \<longleftrightarrow>
     settled_once rid s \<and> map_option request_of (pending s rid) = Some R"

text \<open>A record whose label and notes have the property \<open>P\<close>.\<close>

definition saved_with :: "(nat \<Rightarrow> jsstring \<Rightarrow> bool) \<Rightarrow> savedStream \<Rightarrow> bool" where
  "saved_with P r \<longleftrightarrow> stored_text P 60 (label r) \<and> stored_text P 280 (notesText r)"

section \<open>Sanitizing text\<close>

lemma length_sanitizeText: "length (sanitizeText v m) \<le> m"
  by (simp add: sanitizeText_def Let_def split: jsval.splits)

lemma sanitizeText_JStr: "sanitizeText (JStr s) m = take m (trim s)"
  by (simp add: sanitizeText_def Let_def)




lemma trim_Nil: "trim s = [] \<longleftrightarrow> list_all is_ws s"
proof
  assume "trim s = []"
  hence a: "\<forall>x \<in> set (dropWhile is_ws s). is_ws x"
    by (simp add: trim_def)
  have "dropWhile is_ws s = []"
  proof (rule ccontr)
    assume n: "dropWhile is_ws s \<noteq> []"
    hence "\<not> is_ws (hd (dropWhile is_ws s))" by (rule hd_dropWhile)
    moreover have "hd (dropWhile is_ws s) \<in> set (dropWhile is_ws s)" using n by simp
    ultimately show False using a by blast
  qed
  hence "\<forall>x \<in> set s. is_ws x" by (simp only: dropWhile_eq_Nil_conv)
  thus "list_all is_ws s" by (simp add: list_all_iff)
next
  assume "list_all is_ws s"
  hence "\<forall>x \<in> set s. is_ws x" by (simp add: list_all_iff)
  hence "dropWhile is_ws s = []" by (simp only: dropWhile_eq_Nil_conv)
  thus "trim s = []" by (simp only: trim_def rev.simps dropWhile.simps)
qed



subsection \<open>Finding and changing a record\<close>

lemma find_modify_first:
  "List.find p xs = Some r \<Longrightarrow> p (f r) \<Longrightarrow> List.find p (modify_first p f xs) = Some (f r)"
  by (induction xs) (auto split: if_splits)

lemma find_append_new:
  "List.find p xs = None \<Longrightarrow> p r \<Longrightarrow> List.find p (xs @ [r]) = Some r"
  by (induction xs) (auto split: if_splits)

lemma modify_first_append_new:
  "List.find p xs = None \<Longrightarrow> p r \<Longrightarrow> modify_first p f (xs @ [r]) = xs @ [f r]"
  by (induction xs) (auto split: if_splits)

lemma sanitizeText_blank: "blank v \<Longrightarrow> sanitizeText v m = []"
  by (cases v) (simp_all add: sanitizeText_def trim_Nil [THEN iffD2])

lemma record_of_upsert_blank:
  assumes "record_of url saved = Some r" "blank l" "blank n"
  shows "upsert_list url sid l n now saved =
           modify_first (\<lambda>stream. rtspUrl stream = url)
             (\<lambda>e. e\<lparr> lastStreamId := JStr sid, lastStartedAt := JStr now \<rparr>) saved"
  using assms by (simp add: upsert_list_def record_of_def sanitizeText_blank Let_def)

lemma record_of_Some_url: "record_of url saved = Some r \<Longrightarrow> rtspUrl r = url"
  by (auto simp: record_of_def find_Some_iff)



lemma add_shot_take: "add_shot r xs = take 20 (r # xs)"
  by (simp add: add_shot_def Let_def)

lemma shots_of_addshot_list:
  "shots_of url (addshot_list url sid f now saved) = take 20 (Shot f now # shots_of url saved)"
proof (cases "List.find (\<lambda>stream. rtspUrl stream = url) saved")
  case None
  thus ?thesis
    by (simp add: addshot_list_def shots_of_def record_of_def modify_first_append_new
        find_append_new add_shot_take)
next
  case (Some r)
  hence u: "rtspUrl r = url" by (auto simp: find_Some_iff)
  show ?thesis
    using Some u find_modify_first [OF Some,
        of "\<lambda>e. e\<lparr> screenshots := add_shot (Shot f now) (screenshots e) \<rparr>"]
    by (simp add: addshot_list_def shots_of_def record_of_def add_shot_take)
qed

lemma find_modify_first_other:
  "(\<And>x. q (f x) = q x) \<Longrightarrow> (\<And>x. q x \<Longrightarrow> \<not> p x) \<Longrightarrow>
   List.find q (modify_first p f xs) = List.find q xs"
  by (induction xs) auto

lemma find_snoc_other: "\<not> q r \<Longrightarrow> List.find q (xs @ [r]) = List.find q xs"
  by (induction xs) auto

lemma shots_of_addshot_list_other:
  assumes "url' \<noteq> url"
  shows "shots_of url' (addshot_list url sid f now saved) = shots_of url' saved"
proof -
  let ?q = "\<lambda>stream. rtspUrl stream = url'"
  let ?p = "\<lambda>stream. rtspUrl stream = url"
  have m: "\<And>xs g. (\<And>x. rtspUrl (g x) = rtspUrl x) \<Longrightarrow>
             List.find ?q (modify_first ?p g xs) = List.find ?q xs"
    using assms by (intro find_modify_first_other) auto
  have a: "\<And>xs r. rtspUrl r = url \<Longrightarrow> List.find ?q (xs @ [r]) = List.find ?q xs"
    using assms by (simp add: find_snoc_other)
  show ?thesis
    by (simp add: addshot_list_def shots_of_def record_of_def m a split: option.splits)
qed

lemma take_append_take: "take n (xs @ take n ys) = take n (xs @ ys)"
  by (simp add: min_def)

lemma savedStreams_addScreenshotRecord:
  "savedStreams (addScreenshotRecord url sid f now ok s) = addshot_list url sid f now (savedStreams s)"
  by (simp add: addScreenshotRecord_def persistSavedStreams_def)

lemma shots_of_capture_calls:
  "length (shots_of url (savedStreams s)) \<le> 20 \<Longrightarrow>
   shots_of url (savedStreams (capture_calls url calls s))
     = take 20 (rev (map (\<lambda>(streamId, fileName, now, write_ok). Shot fileName now) calls)
                @ shots_of url (savedStreams s))"
proof (induction calls arbitrary: s)
  case Nil
  thus ?case by (simp add: capture_calls_def)
next
  case (Cons c cs)
  obtain sid f now ok where c: "c = (sid, f, now, ok)" by (cases c) auto
  have "capture_calls url (c # cs) s = capture_calls url cs (addScreenshotRecord url sid f now ok s)"
    by (simp add: capture_calls_def c)
  moreover have "length (shots_of url (savedStreams (addScreenshotRecord url sid f now ok s))) \<le> 20"
    by (simp add: savedStreams_addScreenshotRecord shots_of_addshot_list)
  ultimately show ?case
    using take_append_take [of 20 "rev (map (\<lambda>(streamId, fileName, now, write_ok). Shot fileName now) cs)"
        "Shot f now # shots_of url (savedStreams s)"]
    by (simp add: Cons.IH c savedStreams_addScreenshotRecord shots_of_addshot_list)
qed

section \<open>The metadata store\<close>

text \<open>
  Claim C9. \<open>loadSavedStreams\<close> never lets an exception through: it always returns an
  array. The array is empty when the storage file is missing, cannot be read, does not
  parse, or parses to something that is not an array; and also when it parses to an array
  with a \<open>null\<close> element, since the TypeError of the mapping is caught like the others.
\<close>

theorem load_never_raises:
  "(\<exists>streams. loadSavedStreams file = Inr streams)
   \<and> loadSavedStreams Missing = Inr []
   \<and> loadSavedStreams Unreadable = Inr []
   \<and> loadSavedStreams Unparseable = Inr []
   \<and> (\<not> isArray v \<longrightarrow> loadSavedStreams (Parsed v) = Inr [])
   \<and> (JNull \<in> set xs \<longrightarrow> loadSavedStreams (Parsed (JArr r xs)) = Inr [])"
proof -
  have 1: "\<exists>streams. loadSavedStreams file = Inr streams"
    by (simp add: loadSavedStreams_def split: sum.splits)
  have 2: "\<not> isArray v \<longrightarrow> loadSavedStreams (Parsed v) = Inr []"
    by (cases v) (simp_all add: loadSavedStreams_def)
  have "JNull \<in> set xs \<Longrightarrow> \<exists>e. map_throwing load_one xs = Inl e"
    by (induction xs) (auto simp: load_one_def split: sum.splits)
  hence 3: "JNull \<in> set xs \<longrightarrow> loadSavedStreams (Parsed (JArr r xs)) = Inr []"
    by (auto simp: loadSavedStreams_def)
  show ?thesis using 1 2 3 by (simp add: loadSavedStreams_def)
qed

theorem load_never_raises_witness:
  "loadSavedStreams (Parsed (JObj 0 [])) = Inr []
   \<and> loadSavedStreams (Parsed (JArr 0 [JObj 1 [], JNull])) = Inr []"
  using load_never_raises [of "Parsed (JObj 0 [])" "JObj 0 []" "[JObj 1 [], JNull]" 0]
  by simp

text \<open>
  Claim C3. Take a record that \<open>find\<close> gives for a URL. \<open>upsertSavedStream\<close> with a label
  and notes that are each not a string, empty, or whitespace only leaves the record's label,
  notes and screenshots as they are and sets \<open>lastStreamId\<close> and \<open>lastStartedAt\<close> to the
  new values. The update handler with two empty strings sets label and notes of that
  record to the empty string (when the URL passes the handler's guard; a request
  without a URL is refused and changes nothing).
\<close>

theorem upsert_keeps_update_overwrites:
  assumes "record_of url (savedStreams s) = Some r" and "blank l" and "blank n"
  shows "record_of url (savedStreams (upsertSavedStream url sid l n now ok s))
           = Some (r\<lparr> lastStreamId := JStr sid, lastStartedAt := JStr now \<rparr>)
       \<and> record_of url (savedStreams (saved_streams_update url (JStr []) (JStr []) ok s))
           = (if truthy url then Some (r\<lparr> label := JStr [], notesText := JStr [] \<rparr>) else Some r)"
proof -
  let ?p = "\<lambda>stream. rtspUrl stream = url"
  have u: "rtspUrl r = url" using assms(1) by (rule record_of_Some_url)
  have f: "List.find ?p (savedStreams s) = Some r" using assms(1) by (simp add: record_of_def)
  have "savedStreams (upsertSavedStream url sid l n now ok s)
          = modify_first ?p (\<lambda>e. e\<lparr> lastStreamId := JStr sid, lastStartedAt := JStr now \<rparr>)
              (savedStreams s)"
    using record_of_upsert_blank [OF assms]
    by (simp add: upsertSavedStream_def persistSavedStreams_def)
  hence 1: "record_of url (savedStreams (upsertSavedStream url sid l n now ok s))
           = Some (r\<lparr> lastStreamId := JStr sid, lastStartedAt := JStr now \<rparr>)"
    using find_modify_first [OF f, of "\<lambda>e. e\<lparr> lastStreamId := JStr sid, lastStartedAt := JStr now \<rparr>"] u
    by (simp add: record_of_def)
  have e: "sanitizeText (JStr []) 60 = []" "sanitizeText (JStr []) 280 = []"
    by (simp_all add: sanitizeText_def trim_def)
  have 2: "record_of url (savedStreams (saved_streams_update url (JStr []) (JStr []) ok s))
           = (if truthy url then Some (r\<lparr> label := JStr [], notesText := JStr [] \<rparr>) else Some r)"
    using find_modify_first [OF f, of "\<lambda>e. e\<lparr> label := JStr [], notesText := JStr [] \<rparr>"] u f
    by (simp add: saved_streams_update_def update_list_def e respond_def persistSavedStreams_def
        record_of_def Let_def)
  show ?thesis using 1 2 by simp
qed



theorem upsert_keeps_update_overwrites_witness:
  "record_of (JStr (ascii ''u''))
     (savedStreams (upsertSavedStream (JStr (ascii ''u'')) (ascii ''id2'') (JStr (ascii '' '')) JNull
        (ascii ''t2'') True
        (startup [\<lparr> rtspUrl = JStr (ascii ''u''), lastStreamId = JStr (ascii ''id1''),
                     lastStartedAt = JStr (ascii ''t1''), label = JStr (ascii ''cam''),
                     notesText = JStr (ascii ''door''), screenshots = [] \<rparr>] {})))
     = Some \<lparr> rtspUrl = JStr (ascii ''u''), lastStreamId = JStr (ascii ''id2''),
              lastStartedAt = JStr (ascii ''t2''), label = JStr (ascii ''cam''),
              notesText = JStr (ascii ''door''), screenshots = [] \<rparr>
   \<and> record_of (JStr (ascii ''u''))
     (savedStreams (saved_streams_update (JStr (ascii ''u'')) (JStr []) (JStr []) True
        (startup [\<lparr> rtspUrl = JStr (ascii ''u''), lastStreamId = JStr (ascii ''id1''),
                     lastStartedAt = JStr (ascii ''t1''), label = JStr (ascii ''cam''),
                     notesText = JStr (ascii ''door''), screenshots = [] \<rparr>] {})))
     = Some \<lparr> rtspUrl = JStr (ascii ''u''), lastStreamId = JStr (ascii ''id1''),
              lastStartedAt = JStr (ascii ''t1''), label = JStr [],
              notesText = JStr [], screenshots = [] \<rparr>"
  using upsert_keeps_update_overwrites [where url = "JStr (ascii ''u'')"
        and s = "startup [\<lparr> rtspUrl = JStr (ascii ''u''), lastStreamId = JStr (ascii ''id1''),
                     lastStartedAt = JStr (ascii ''t1''), label = JStr (ascii ''cam''),
                     notesText = JStr (ascii ''door''), screenshots = [] \<rparr>] {}"
        and r = "\<lparr> rtspUrl = JStr (ascii ''u''), lastStreamId = JStr (ascii ''id1''),
                     lastStartedAt = JStr (ascii ''t1''), label = JStr (ascii ''cam''),
                     notesText = JStr (ascii ''door''), screenshots = [] \<rparr>"
        and l = "JStr (ascii '' '')" and n = JNull and sid = "ascii ''id2''"
        and now = "ascii ''t2''" and ok = True]
  by (simp add: record_of_def startup_def ascii_def is_ws_def)

text \<open>
  Claim C4. \<open>addScreenshotRecord\<close> puts the new record first and keeps the first 20: the
  screenshots of the URL become \<open>take 20\<close> of the new record followed by the old ones, so
  there are at most 20 after every call, and the screenshots of every other URL stay as
  they are. From no screenshots, 25 calls leave exactly 20 records: calls 6 to 25, the
  last call first; the first five are gone.
\<close>

theorem screenshots_newest_first_capped:
  "shots_of url (savedStreams (addScreenshotRecord url sid f now ok s))
       = take 20 (Shot f now # shots_of url (savedStreams s))
   \<and> length (shots_of url (savedStreams (addScreenshotRecord url sid f now ok s))) \<le> 20
   \<and> (url' \<noteq> url \<longrightarrow>
        shots_of url' (savedStreams (addScreenshotRecord url sid f now ok s))
          = shots_of url' (savedStreams s))
   \<and> (shots_of url (savedStreams s) = [] \<and> length calls = 25 \<longrightarrow>
        shots_of url (savedStreams (capture_calls url calls s))
          = rev (map (\<lambda>(streamId, fileName, now, write_ok). Shot fileName now) (drop 5 calls))
        \<and> length (shots_of url (savedStreams (capture_calls url calls s))) = 20)"
proof -
  let ?mk = "\<lambda>(streamId, fileName, now, write_ok). Shot fileName now"
  have 1: "shots_of url (savedStreams (addScreenshotRecord url sid f now ok s))
       = take 20 (Shot f now # shots_of url (savedStreams s))"
    by (simp add: savedStreams_addScreenshotRecord shots_of_addshot_list)
  have 2: "url' \<noteq> url \<longrightarrow>
        shots_of url' (savedStreams (addScreenshotRecord url sid f now ok s))
          = shots_of url' (savedStreams s)"
    by (simp add: savedStreams_addScreenshotRecord shots_of_addshot_list_other)
  have 3: "shots_of url (savedStreams (capture_calls url calls s))
          = rev (map ?mk (drop 5 calls))
        \<and> length (shots_of url (savedStreams (capture_calls url calls s))) = 20"
    if e: "shots_of url (savedStreams s) = []" and l: "length calls = 25"
  proof -
    have "shots_of url (savedStreams (capture_calls url calls s)) = take 20 (rev (map ?mk calls))"
      using shots_of_capture_calls [of url s calls] e by simp
    also have "\<dots> = rev (drop 5 (map ?mk calls))" using l by (simp add: take_rev)
    finally show ?thesis using l by (simp add: drop_map)
  qed
  show ?thesis using 1 2 3 by simp
qed


theorem screenshots_newest_first_capped_witness:
  "shots_of (JStr (ascii ''u''))
      (savedStreams (capture_calls (JStr (ascii ''u''))
         (map (\<lambda>i. (ascii ''id'', [of_nat i], [of_nat i], True)) [0..<25]) (startup [] {})))
     = rev (map (\<lambda>(streamId, fileName, now, write_ok). Shot fileName now)
              (drop 5 (map (\<lambda>i. (ascii ''id'', [of_nat i], [of_nat i], True)) [0..<25])))
   \<and> shots_of JNull (savedStreams (addScreenshotRecord (JStr (ascii ''u'')) (ascii ''id'')
         (ascii ''f'') (ascii ''t'') True (startup [] {}))) = []"
  using screenshots_newest_first_capped [of "JStr (ascii ''u'')" "ascii ''id''" "ascii ''f''"
      "ascii ''t''" True "startup [] {}" JNull
      "map (\<lambda>i. (ascii ''id'', [of_nat i], [of_nat i], True)) [0..<25]"]
  by (simp add: shots_of_def record_of_def startup_def)


section \<open>What is stored as label and notes\<close>

lemma list_all_modify_first:
  "list_all P xs \<Longrightarrow> (\<And>x. P x \<Longrightarrow> P (f x)) \<Longrightarrow> list_all P (modify_first p f xs)"
  by (induction xs) auto

lemma list_all_alist_update:
  "list_all P xs \<Longrightarrow> P (k, v) \<Longrightarrow> list_all P (AList.update k v xs)"
  by (induction xs) auto

lemma list_all_alist_delete:
  "list_all P xs \<Longrightarrow> list_all P (AList.delete k xs)"
  by (induction xs) auto

lemma saved_with_upsert_list:
  assumes "\<And>v m. P m (sanitizeText v m)" and "list_all (saved_with P) saved"
  shows "list_all (saved_with P) (upsert_list url sid l n now saved)"
  using assms
  by (auto simp: upsert_list_def Let_def saved_with_def
      intro!: list_all_modify_first split: option.splits)

lemma saved_with_update_list:
  assumes "\<And>v m. P m (sanitizeText v m)" and "list_all (saved_with P) saved"
  shows "list_all (saved_with P) (snd (update_list url l n saved))"
  using assms
  by (auto simp: update_list_def Let_def saved_with_def
      intro!: list_all_modify_first split: option.splits)

lemma saved_with_addshot_list:
  assumes "\<And>v m. P m (sanitizeText v m)" and "list_all (saved_with P) saved"
  shows "list_all (saved_with P) (addshot_list url sid f now saved)"
proof -
  have e: "P 60 []" "P 280 []"
    using assms(1) [of 60 JNull] assms(1) [of 280 JNull] by (simp_all add: sanitizeText_def)
  show ?thesis
    using assms(2) e
    by (auto simp: addshot_list_def Let_def saved_with_def
        intro!: list_all_modify_first split: option.splits)
qed

lemma texts_all_alt:
  "texts_all P s \<longleftrightarrow> list_all (saved_with P) (savedStreams s)
     \<and> list_all (\<lambda>(id, info). P 60 (info_label info) \<and> P 280 (info_notes info))
           (activeStreams s)"
  by (simp add: texts_all_def saved_with_def [abs_def])

lemma texts_all_frame:
  "savedStreams s' = savedStreams s \<Longrightarrow> activeStreams s' = activeStreams s \<Longrightarrow>
   texts_all P s' = texts_all P s"
  by (simp add: texts_all_def)

lemma texts_all_respond [simp]: "texts_all P (respond rid st b s) = texts_all P s"
  by (rule texts_all_frame) (simp_all add: respond_def)

lemma texts_all_finalize [simp]: "texts_all P (finalize rid st b s) = texts_all P s"
  by (rule texts_all_frame) (simp_all add: finalize_def respond_def split: option.splits)

lemma texts_all_cleanupStream: "texts_all P s \<Longrightarrow> texts_all P (cleanupStream sid s)"
  by (auto simp: cleanupStream_def texts_all_def list_all_alist_delete split: option.splits)

lemma texts_all_upsert:
  assumes "\<And>v m. P m (sanitizeText v m)" and "texts_all P s"
  shows "texts_all P (upsertSavedStream url sid l n now ok s)"
  using saved_with_upsert_list [of P "savedStreams s", OF assms(1)] assms(2)
  by (simp add: texts_all_alt upsertSavedStream_def persistSavedStreams_def)

lemma texts_all_addshot:
  assumes "\<And>v m. P m (sanitizeText v m)" and "texts_all P s"
  shows "texts_all P (addScreenshotRecord url sid f now ok s)"
  using saved_with_addshot_list [of P "savedStreams s", OF assms(1)] assms(2)
  by (simp add: texts_all_alt addScreenshotRecord_def persistSavedStreams_def)

lemma texts_all_start_stream:
  assumes "\<And>v m. P m (sanitizeText v m)" and "texts_all P s"
  shows "texts_all P (start_stream url l n sid ms s)"
proof -
  have "list_all (\<lambda>(id, info). P 60 (info_label info) \<and> P 280 (info_notes info))
          (AList.update sid
             \<lparr> info_rtspUrl = url, info_label = sanitizeText l 60,
               info_notes = sanitizeText n 280, ffmpegProcess = next_req s,
               streamDir = StreamDir sid, playlistPath = StreamFile sid ''playlist.m3u8'',
               startTime = ms \<rparr>
             (activeStreams s))"
    using assms by (intro list_all_alist_update) (simp_all add: texts_all_def)
  thus ?thesis using assms(2)
    by (simp add: start_stream_def Let_def texts_all_def respond_def)
qed

lemma texts_all_step:
  assumes san: "\<And>v m. P m (sanitizeText v m)" and b: "texts_all P s"
  shows "texts_all P (step e s)"
proof (cases e)
  case (StartStream url l n sid t)
  thus ?thesis using texts_all_start_stream [of P, OF san b] by simp
next
  case (FfmpegStart rid)
  have "texts_all P (on_start rid s) = texts_all P s"
    by (rule texts_all_frame) (simp_all add: on_start_def)
  thus ?thesis using b by (simp add: FfmpegStart)
next
  case (FfmpegError rid)
  have "texts_all P (s\<lparr> procs := (procs s)(rid \<mapsto> Exited) \<rparr>)"
    using b by (simp add: texts_all_def)
  hence "\<And>c. texts_all P (cleanupStream c (s\<lparr> procs := (procs s)(rid \<mapsto> Exited) \<rparr>))"
    by (rule texts_all_cleanupStream)
  thus ?thesis using b by (simp add: FfmpegError on_error_def split: option.splits)
next
  case (FfmpegEnd rid)
  have "texts_all P (s\<lparr> procs := (procs s)(rid \<mapsto> Exited) \<rparr>)"
    using b by (simp add: texts_all_def)
  hence "\<And>c. texts_all P (cleanupStream c (s\<lparr> procs := (procs s)(rid \<mapsto> Exited) \<rparr>))"
    by (rule texts_all_cleanupStream)
  thus ?thesis using b by (simp add: FfmpegEnd on_end_def split: option.splits)
next
  case (PollTick rid now ok)
  show ?thesis
    using b texts_all_upsert [of P, OF san b]
    by (simp add: PollTick on_poll_def split: option.splits)
next
  case (TimeoutFire rid)
  have "\<And>p. texts_all P (s\<lparr> pending := p \<rparr>)" using b by (simp add: texts_all_def)
  hence "\<And>c p. texts_all P (cleanupStream c (s\<lparr> pending := p \<rparr>))"
    by (rule texts_all_cleanupStream)
  thus ?thesis using b by (simp add: TimeoutFire on_timeout_def split: option.splits)
next
  case (PlaylistWritten rid)
  have "texts_all P (playlist_written rid s) = texts_all P s"
    by (rule texts_all_frame) (simp_all add: playlist_written_def split: option.splits)
  thus ?thesis using b by (simp add: PlaylistWritten)
next
  case (StopStream sid)
  have n: "texts_all P (s\<lparr> next_req := Suc (next_req s) \<rparr>)"
    using b by (simp add: texts_all_def)
  hence "texts_all P (cleanupStream sid (s\<lparr> next_req := Suc (next_req s) \<rparr>))"
    by (rule texts_all_cleanupStream)
  thus ?thesis using n by (simp add: StopStream stop_stream_def Let_def)
next
  case (UpdateSaved url l n ok)
  show ?thesis
    using b saved_with_update_list [of P "savedStreams s" url l n, OF san]
    by (auto simp: UpdateSaved saved_streams_update_def Let_def texts_all_alt
        persistSavedStreams_def respond_def split: prod.splits)
next
  case (Screenshot sid now)
  have "texts_all P (screenshot sid now s) = texts_all P s"
    by (rule texts_all_frame)
      (simp_all add: screenshot_def Let_def respond_def split: option.splits)
  thus ?thesis using b by (simp add: Screenshot)
next
  case (CaptureEnd rid now ok)
  show ?thesis
    using b texts_all_addshot [of P, OF san b]
    by (simp add: CaptureEnd on_capture_end_def split: option.splits)
next
  case (CaptureError rid)
  thus ?thesis using b by (simp add: on_capture_error_def split: option.splits)
qed

lemma run_Cons [simp]: "run (e # evs) s = run evs (step e s)"
  by (simp add: run_def)

lemma run_Nil [simp]: "run [] s = s"
  by (simp add: run_def)

lemma texts_all_run:
  assumes san: "\<And>v m. P m (sanitizeText v m)"
  shows "texts_all P s \<Longrightarrow> texts_all P (run evs s)"
proof (induction evs arbitrary: s)
  case Nil
  thus ?case by simp
next
  case (Cons e evs)
  from texts_all_step [of P, OF san Cons.prems] have "texts_all P (step e s)" .
  from Cons.IH [OF this] show ?case by simp
qed

lemma texts_all_startup_empty: "texts_all P (startup [] disk0)"
  by (simp add: texts_all_def startup_def)

lemma texts_bounded_step: "texts_bounded s \<Longrightarrow> texts_bounded (step e s)"
  unfolding texts_bounded_def by (rule texts_all_step) (rule length_sanitizeText)

lemma texts_bounded_run: "texts_bounded s \<Longrightarrow> texts_bounded (run evs s)"
  unfolding texts_bounded_def by (rule texts_all_run) (rule length_sanitizeText)



text \<open>What the three operations write.\<close>

lemma start_stream_string:
  assumes "u \<noteq> []"
  shows "responses (start_stream (JStr u) l n sid ms s) = responses s
    \<and> map_option (\<lambda>info. (info_label info, info_notes info))
         (map_of (activeStreams (start_stream (JStr u) l n sid ms s)) sid)
       = Some (sanitizeText l 60, sanitizeText n 280)"
  using assms by (simp add: start_stream_def Let_def update_conv')

lemma responses_start_stream_texts:
  "responses (start_stream url l n sid ms s) = responses (start_stream url l' n' sid ms s)"
  by (simp add: start_stream_def Let_def respond_def)

lemma update_writes_sanitized:
  assumes t: "truthy url"
  shows "map_option (\<lambda>r. (label r, notesText r))
          (record_of url (savedStreams (saved_streams_update url l n ok s)))
          = Some (JStr (sanitizeText l 60), JStr (sanitizeText n 280))"
proof (cases "List.find (\<lambda>stream. rtspUrl stream = url) (savedStreams s)")
  case None
  thus ?thesis using t
    by (simp add: saved_streams_update_def update_list_def Let_def respond_def
        persistSavedStreams_def record_of_def find_append_new)
next
  case (Some r)
  hence u: "rtspUrl r = url" by (auto simp: find_Some_iff)
  show ?thesis
    using t Some u find_modify_first [OF Some,
        of "\<lambda>e. e\<lparr> label := JStr (sanitizeText l 60), notesText := JStr (sanitizeText n 280) \<rparr>"]
    by (simp add: saved_streams_update_def update_list_def Let_def respond_def
        persistSavedStreams_def record_of_def)
qed

lemma update_answers_200:
  "truthy url \<Longrightarrow>
   \<exists>r. responses (saved_streams_update url l n ok s)
          = responses s @ [(next_req s, Response 200 (SavedBody r))]"
  by (simp add: saved_streams_update_def Let_def respond_def persistSavedStreams_def
      split: prod.splits)

lemma upsert_creates_sanitized:
  "record_of url (savedStreams s) = None \<Longrightarrow>
   map_option (\<lambda>r. (label r, notesText r))
     (record_of url (savedStreams (upsertSavedStream url sid l n now ok s)))
     = Some (JStr (sanitizeText l 60), JStr (sanitizeText n 280))"
  by (simp add: upsertSavedStream_def upsert_list_def Let_def persistSavedStreams_def
      record_of_def find_append_new)

lemma upsert_existing:
  assumes r: "record_of url (savedStreams s) = Some r"
  shows "record_of url (savedStreams (upsertSavedStream url sid l n now ok s))
     = Some (r\<lparr> lastStreamId := JStr sid, lastStartedAt := JStr now,
                label := (if sanitizeText l 60 \<noteq> [] then JStr (sanitizeText l 60) else label r),
                notesText := (if sanitizeText n 280 \<noteq> [] then JStr (sanitizeText n 280)
                              else notesText r) \<rparr>)"
proof -
  let ?p = "\<lambda>stream. rtspUrl stream = url"
  let ?f = "\<lambda>e. let e1 = e\<lparr> lastStreamId := JStr sid, lastStartedAt := JStr now \<rparr>;
                     e2 = (if sanitizeText l 60 \<noteq> [] then e1\<lparr> label := JStr (sanitizeText l 60) \<rparr>
                           else e1)
                 in (if sanitizeText n 280 \<noteq> [] then e2\<lparr> notesText := JStr (sanitizeText n 280) \<rparr>
                     else e2)"
  have f: "List.find ?p (savedStreams s) = Some r" using r by (simp add: record_of_def)
  have u: "rtspUrl r = url" using r by (rule record_of_Some_url)
  hence "?p (?f r)" by (simp add: Let_def)
  from find_modify_first [OF f, of ?f, OF this] f
  show ?thesis
    by (simp add: upsertSavedStream_def upsert_list_def persistSavedStreams_def record_of_def
        Let_def)
qed


text \<open>
  Claim C8, as stated, fails in its last part: \<open>loadSavedStreams\<close> copies label and notes
  from the storage file as they are, and \<open>upsertSavedStream\<close> keeps the label of a record
  when the new one is empty. A file with a label of 61 code units gives a record with
  that label, and the record still has it after a session for its URL has started and
  become ready.
\<close>

theorem loaded_label_over_bound:
  "loadSavedStreams (Parsed (JArr 0 [JObj 1 [(ascii ''rtspUrl'', JStr (ascii ''u'')),
                                              (ascii ''label'', JStr (replicate 61 0x61))]]))
     = Inr [\<lparr> rtspUrl = JStr (ascii ''u''), lastStreamId = JUndefined,
              lastStartedAt = JUndefined, label = JStr (replicate 61 0x61),
              notesText = JStr [], screenshots = [] \<rparr>]
   \<and> map_option label
        (record_of (JStr (ascii ''u''))
          (savedStreams
            (run [StartStream (JStr (ascii ''u'')) JUndefined JUndefined (ascii ''id1'') 0,
                  FfmpegStart 0, PlaylistWritten 0, PollTick 0 (ascii ''t'') True]
               (startup [\<lparr> rtspUrl = JStr (ascii ''u''), lastStreamId = JUndefined,
                            lastStartedAt = JUndefined, label = JStr (replicate 61 0x61),
                            notesText = JStr [], screenshots = [] \<rparr>] {}))))
     = Some (JStr (replicate 61 0x61))
   \<and> length (replicate 61 (0x61 :: 16 word)) = 61"
  by (simp add: loadSavedStreams_def load_one_def ascii_def startup_def start_stream_def
      on_start_def playlist_written_def on_poll_def finalize_def respond_def
      upsertSavedStream_def upsert_list_def persistSavedStreams_def sanitizeText_def
      record_of_def ensureDirectoryExists_def mkdirSync_recursive_def Let_def)

text \<open>
  Claim C8, amended. A string is cut to the first \<open>m\<close> code units of its trimmed text, so a
  sanitized label has at most 60 and sanitized notes at most 280, whatever the input.
  Label and notes never make an operation refuse: the responses of the start handler are
  the same for any two pairs of label and notes; with a URL that is a non-empty string it
  sends no response of its own and registers the session with the sanitized texts; the
  update handler, with a URL that passes its guard, answers 200 and stores the sanitized
  texts; \<open>upsertSavedStream\<close> stores the sanitized texts in a record it creates, and in an
  existing record it replaces label and notes by the sanitized text when that is not
  empty and keeps what the record has otherwise. So what these operations write is
  within 60 and 280. What the storage file held is kept as it is: every handler and
  callback keeps all labels and notes within 60 and 280 when they were so before, and
  they are within 60 and 280 in every run of a server that loaded no records, or loaded
  records that are within the bounds.
\<close>

theorem label_notes_truncated_on_write:
  "sanitizeText (JStr t) m = take m (trim t)
   \<and> length (sanitizeText l 60) \<le> 60 \<and> length (sanitizeText n 280) \<le> 280
   \<and> responses (start_stream url l n sid ms s) = responses (start_stream url l' n' sid ms s)
   \<and> (u \<noteq> [] \<longrightarrow>
        responses (start_stream (JStr u) l n sid ms s) = responses s
        \<and> map_option (\<lambda>info. (info_label info, info_notes info))
              (map_of (activeStreams (start_stream (JStr u) l n sid ms s)) sid)
            = Some (sanitizeText l 60, sanitizeText n 280))
   \<and> (truthy url \<longrightarrow>
        map_option (\<lambda>r. (label r, notesText r))
          (record_of url (savedStreams (saved_streams_update url l n ok s)))
          = Some (JStr (sanitizeText l 60), JStr (sanitizeText n 280))
        \<and> (\<exists>r. responses (saved_streams_update url l n ok s)
                   = responses s @ [(next_req s, Response 200 (SavedBody r))]))
   \<and> (record_of url (savedStreams s) = None \<longrightarrow>
        map_option (\<lambda>r. (label r, notesText r))
          (record_of url (savedStreams (upsertSavedStream url sid l n now ok s)))
          = Some (JStr (sanitizeText l 60), JStr (sanitizeText n 280)))
   \<and> (record_of url (savedStreams s) = Some r \<longrightarrow>
        record_of url (savedStreams (upsertSavedStream url sid l n now ok s))
          = Some (r\<lparr> lastStreamId := JStr sid, lastStartedAt := JStr now,
                     label := (if sanitizeText l 60 \<noteq> [] then JStr (sanitizeText l 60)
                               else label r),
                     notesText := (if sanitizeText n 280 \<noteq> [] then JStr (sanitizeText n 280)
                                   else notesText r) \<rparr>))
   \<and> (texts_bounded s \<longrightarrow> texts_bounded (step e s))
   \<and> texts_bounded (run evs (startup [] files))
   \<and> (texts_bounded (startup loaded files) \<longrightarrow> texts_bounded (run evs (startup loaded files)))"
proof -
  have 1: "texts_bounded (run evs (startup [] files))"
    by (intro texts_bounded_run) (simp add: texts_bounded_def texts_all_startup_empty)
  from 1 sanitizeText_JStr [of t m] length_sanitizeText [of l 60] length_sanitizeText [of n 280]
    responses_start_stream_texts [of url l n sid ms s l' n']
    start_stream_string [of u l n sid ms s]
    update_writes_sanitized [of url l n ok s] update_answers_200 [of url l n ok s]
    upsert_creates_sanitized [of url s sid l n now ok]
    upsert_existing [of url s r sid l n now ok]
    texts_bounded_step [of s e] texts_bounded_run [of "startup loaded files" evs]
  show ?thesis by blast
qed

theorem label_notes_truncated_on_write_witness:
  "sanitizeText (JStr (replicate 100 0x61)) 60 = replicate 60 0x61
   \<and> length (sanitizeText (JStr (replicate 100 0x61)) 60) \<le> 60
   \<and> responses (start_stream (JStr (ascii ''u'')) (JStr (replicate 100 0x61)) JUndefined
        (ascii ''id'') 0 (startup [] {})) = []
   \<and> map_option (\<lambda>r. (label r, notesText r))
        (record_of (JStr (ascii ''u''))
          (savedStreams (saved_streams_update (JStr (ascii ''u'')) (JStr (replicate 100 0x61))
             JUndefined True (startup [] {}))))
        = Some (JStr (sanitizeText (JStr (replicate 100 0x61)) 60), JStr [])
   \<and> texts_bounded (run [UpdateSaved (JStr (ascii ''u'')) (JStr (replicate 100 0x61))
        JUndefined True] (startup [] {}))"
proof -
  have t: "truthy (JStr (ascii ''u''))" "ascii ''u'' \<noteq> []" by (simp_all add: ascii_def)
  have r: "responses (startup [] {}) = []" by (simp add: startup_def)
  have u: "sanitizeText JUndefined 280 = []" by (simp add: sanitizeText_def)
  have n: "record_of (JStr (ascii ''u'')) (savedStreams (startup [] {})) = None"
    by (simp add: record_of_def startup_def)
  have b: "texts_bounded (startup [] {})" by (simp add: texts_bounded_def texts_all_startup_empty)
  have c: "sanitizeText (JStr (replicate 100 0x61)) 60 = replicate 60 0x61"
    by (simp add: sanitizeText_def trim_def is_ws_def)
  show ?thesis
    using c label_notes_truncated_on_write [where l = "JStr (replicate 100 0x61)"
        and n = JUndefined and l' = "JStr (replicate 100 0x61)" and n' = JUndefined
        and url = "JStr (ascii ''u'')" and u = "ascii ''u''" and sid = "ascii ''id''"
        and ms = 0 and s = "startup [] {}" and ok = True and t = "[]"
        and m = 0 and now = "[]" and loaded = "[]" and files = "{}"
        and r = "\<lparr> rtspUrl = JNull, lastStreamId = JNull, lastStartedAt = JNull,
                   label = JNull, notesText = JNull, screenshots = [] \<rparr>"
        and e = "UpdateSaved (JStr (ascii ''u'')) (JStr (replicate 100 0x61)) JUndefined True"
        and evs = "[UpdateSaved (JStr (ascii ''u'')) (JStr (replicate 100 0x61)) JUndefined True]"]
      t r u n b
    by simp
qed




section \<open>Cleanup and stop\<close>

lemma map_of_cleanupStream [simp]: "map_of (activeStreams (cleanupStream sid s)) sid = None"
  by (simp add: cleanupStream_def delete_conv' split: option.splits)

lemma cleanupStream_absent: "map_of (activeStreams s) sid = None \<Longrightarrow> cleanupStream sid s = s"
  by (simp add: cleanupStream_def)

lemma StreamDir_not_in_rmSync: "StreamDir sid \<notin> rmSync_recursive (StreamDir sid) d"
  by (simp add: rmSync_recursive_def)

lemma StreamFile_not_in_rmSync: "StreamFile sid f \<notin> rmSync_recursive (StreamDir sid) d"
  by (simp add: rmSync_recursive_def)

lemma disk_cleanupStream:
  "map_of (activeStreams s) sid \<noteq> None \<Longrightarrow> StreamDir sid \<notin> disk (cleanupStream sid s)"
  by (auto simp: cleanupStream_def StreamDir_not_in_rmSync)

lemma disk_cleanupStream_file:
  "map_of (activeStreams s) sid \<noteq> None \<Longrightarrow> StreamDir sid \<in> disk s \<Longrightarrow>
   StreamFile sid f \<notin> disk (cleanupStream sid s)"
  by (auto simp: cleanupStream_def StreamFile_not_in_rmSync)

lemma next_req_cleanupStream [simp]: "next_req (cleanupStream sid s) = next_req s"
  by (simp add: cleanupStream_def split: option.splits)

lemma responses_cleanupStream [simp]: "responses (cleanupStream sid s) = responses s"
  by (simp add: cleanupStream_def split: option.splits)

lemma activeStreams_next_req [simp]: "cleanupStream sid (s\<lparr> next_req := n \<rparr>) = (cleanupStream sid s)\<lparr> next_req := n \<rparr>"
  by (simp add: cleanupStream_def split: option.splits)


text \<open>
  Claim C7. \<open>cleanupStream\<close> twice on the same id is \<open>cleanupStream\<close> once; on an id that
  is not registered (never was, or was cleaned up) it returns the state as it is, having
  touched neither a process nor the disk; and after it the id is not registered. The
  library's \<open>kill\<close> on a process that was already sent the signal, or is gone, changes
  nothing.
\<close>

theorem cleanup_idempotent:
  "cleanupStream sid (cleanupStream sid s) = cleanupStream sid s
   \<and> (map_of (activeStreams s) sid = None \<longrightarrow> cleanupStream sid s = s)
   \<and> map_of (activeStreams (cleanupStream sid s)) sid = None
   \<and> kill (kill p) = kill p \<and> kill Exited = Exited"
proof -
  have "kill (kill p) = kill p" by (cases p) simp_all
  thus ?thesis by (simp add: cleanupStream_absent)
qed


theorem cleanup_idempotent_witness:
  "cleanupStream (ascii ''id9'') (startup [] {}) = startup [] {}
   \<and> cleanupStream (ascii ''id1'')
        (cleanupStream (ascii ''id1'')
          (start_stream (JStr (ascii ''u'')) JUndefined JUndefined (ascii ''id1'') 0 (startup [] {})))
      = cleanupStream (ascii ''id1'')
          (start_stream (JStr (ascii ''u'')) JUndefined JUndefined (ascii ''id1'') 0 (startup [] {}))"
proof -
  have "map_of (activeStreams (startup [] {})) (ascii ''id9'') = None"
    by (simp add: startup_def)
  thus ?thesis
    using cleanup_idempotent [of "ascii ''id9''" "startup [] {}" Running]
      cleanup_idempotent [of "ascii ''id1''"
        "start_stream (JStr (ascii ''u'')) JUndefined JUndefined (ascii ''id1'') 0 (startup [] {})"
        Running]
    by simp
qed


text \<open>
  Claim C5. A stop request for an id that is not registered is answered 404 and changes
  nothing but the request counter and the list of responses: registry, metadata store,
  storage file, disk, processes and pending requests are as before. A stop request for a
  registered id is answered 200; afterwards the id is neither in the registry nor in the
  listing of \<open>GET /streams\<close>, its work directory is gone (with the files in it), and a
  second stop request for it is answered 404.
\<close>

theorem stop_unknown_not_found:
  "(map_of (activeStreams s) sid = None \<longrightarrow>
      stop_stream sid s
        = s\<lparr> next_req := Suc (next_req s),
             responses := responses s @ [(next_req s, Response 404 (ErrorBody ''Stream not found''))] \<rparr>)
   \<and> (map_of (activeStreams s) sid \<noteq> None \<longrightarrow>
        responses (stop_stream sid s) = responses s @ [(next_req s, Response 200 StoppedBody)]
        \<and> map_of (activeStreams (stop_stream sid s)) sid = None
        \<and> sid \<notin> fst ` set (streams_listing nowMs (stop_stream sid s))
        \<and> StreamDir sid \<notin> disk (stop_stream sid s)
        \<and> (StreamDir sid \<in> disk s \<longrightarrow> StreamFile sid f \<notin> disk (stop_stream sid s))
        \<and> responses (stop_stream sid (stop_stream sid s))
            = responses (stop_stream sid s)
              @ [(Suc (next_req s), Response 404 (ErrorBody ''Stream not found''))])"
proof -
  have 1: "stop_stream sid s
        = s\<lparr> next_req := Suc (next_req s),
             responses := responses s @ [(next_req s, Response 404 (ErrorBody ''Stream not found''))] \<rparr>"
    if "map_of (activeStreams s) sid = None"
    using that by (simp add: stop_stream_def Let_def respond_def)
  have 2: "map_of (activeStreams (stop_stream sid s)) sid = None"
    by (simp add: stop_stream_def Let_def respond_def)
  have 3: "sid \<notin> fst ` set (streams_listing nowMs (stop_stream sid s))"
  proof -
    have "fst ` set (streams_listing nowMs (stop_stream sid s))
            = fst ` set (activeStreams (stop_stream sid s))"
      by (force simp: streams_listing_def)
    thus ?thesis using 2 by (simp add: map_of_eq_None_iff)
  qed
  have 4: "responses (stop_stream sid s) = responses s @ [(next_req s, Response 200 StoppedBody)]
        \<and> StreamDir sid \<notin> disk (stop_stream sid s)
        \<and> (StreamDir sid \<in> disk s \<longrightarrow> StreamFile sid f \<notin> disk (stop_stream sid s))"
    if r: "map_of (activeStreams s) sid \<noteq> None"
    using r disk_cleanupStream [of s sid] disk_cleanupStream_file [of s sid f]
    by (simp add: stop_stream_def Let_def respond_def)
  have 5: "next_req (stop_stream sid s) = Suc (next_req s)"
    by (simp add: stop_stream_def Let_def respond_def)
  have 6: "responses (stop_stream sid (stop_stream sid s))
            = responses (stop_stream sid s)
              @ [(Suc (next_req s), Response 404 (ErrorBody ''Stream not found''))]"
    using 2 5 by (simp add: stop_stream_def [of sid "stop_stream sid s"] Let_def respond_def)
  show ?thesis using 1 2 3 4 6 by blast
qed

theorem stop_unknown_not_found_witness:
  "stop_stream (ascii ''id9'') (startup [] {})
     = (startup [] {})\<lparr> next_req := Suc 0,
          responses := [(0, Response 404 (ErrorBody ''Stream not found''))] \<rparr>
   \<and> responses (stop_stream (ascii ''id1'')
        (start_stream (JStr (ascii ''u'')) JUndefined JUndefined (ascii ''id1'') 0 (startup [] {})))
      = [(1, Response 200 StoppedBody)]
   \<and> StreamDir (ascii ''id1'') \<notin> disk (stop_stream (ascii ''id1'')
        (start_stream (JStr (ascii ''u'')) JUndefined JUndefined (ascii ''id1'') 0 (startup [] {})))
   \<and> StreamFile (ascii ''id1'') ''playlist.m3u8'' \<notin> disk (stop_stream (ascii ''id1'')
        (start_stream (JStr (ascii ''u'')) JUndefined JUndefined (ascii ''id1'') 0 (startup [] {})))"
proof -
  let ?s1 = "start_stream (JStr (ascii ''u'')) JUndefined JUndefined (ascii ''id1'') 0 (startup [] {})"
  have a: "map_of (activeStreams (startup [] {})) (ascii ''id9'') = None"
    "next_req (startup [] {}) = 0" "responses (startup [] {}) = []"
    by (simp_all add: startup_def)
  have b: "map_of (activeStreams ?s1) (ascii ''id1'') \<noteq> None" "next_req ?s1 = 1"
    "responses ?s1 = []" "StreamDir (ascii ''id1'') \<in> disk ?s1"
    by (simp_all add: start_stream_def startup_def Let_def ascii_def ensureDirectoryExists_def
        mkdirSync_recursive_def)
  show ?thesis
    using stop_unknown_not_found [of "startup [] {}" "ascii ''id9''" 0 "''playlist.m3u8''"]
      stop_unknown_not_found [of ?s1 "ascii ''id1''" 0 "''playlist.m3u8''"] a b
    by simp
qed


section \<open>Captures\<close>

lemma concat_shots_modify_first:
  "(\<And>x. screenshots (f x) = screenshots x) \<Longrightarrow>
   concat (map screenshots (modify_first p f xs)) = concat (map screenshots xs)"
  by (induction xs) auto

lemma all_shots_upsert: "all_shots (upsertSavedStream url sid l n now ok s) = all_shots s"
  by (simp add: all_shots_def upsertSavedStream_def persistSavedStreams_def upsert_list_def
      Let_def concat_shots_modify_first split: option.splits)

lemma store_respond [simp]:
  "savedStreams (respond rid st b s) = savedStreams s"
  "savedFile (respond rid st b s) = savedFile s"
  by (simp_all add: respond_def)

lemma store_finalize [simp]:
  "savedStreams (finalize rid st b s) = savedStreams s"
  "savedFile (finalize rid st b s) = savedFile s"
  by (simp_all add: finalize_def split: option.splits)

lemma store_cleanupStream [simp]:
  "savedStreams (cleanupStream sid s) = savedStreams s"
  "savedFile (cleanupStream sid s) = savedFile s"
  by (simp_all add: cleanupStream_def split: option.splits)

lemma store_start_stream [simp]:
  "savedStreams (start_stream url l n sid ms s) = savedStreams s"
  "savedFile (start_stream url l n sid ms s) = savedFile s"
  by (simp_all add: start_stream_def Let_def)

lemma store_on_start [simp]:
  "savedStreams (on_start rid s) = savedStreams s"
  "savedFile (on_start rid s) = savedFile s"
  by (simp_all add: on_start_def)

lemma store_on_error [simp]:
  "savedStreams (on_error rid s) = savedStreams s"
  "savedFile (on_error rid s) = savedFile s"
  by (simp_all add: on_error_def split: option.splits)

lemma store_on_end [simp]:
  "savedStreams (on_end rid s) = savedStreams s"
  "savedFile (on_end rid s) = savedFile s"
  by (simp_all add: on_end_def split: option.splits)

lemma store_on_timeout [simp]:
  "savedStreams (on_timeout rid s) = savedStreams s"
  "savedFile (on_timeout rid s) = savedFile s"
  by (simp_all add: on_timeout_def split: option.splits)

lemma store_playlist_written [simp]:
  "savedStreams (playlist_written rid s) = savedStreams s"
  "savedFile (playlist_written rid s) = savedFile s"
  by (simp_all add: playlist_written_def split: option.splits)

lemma store_stop_stream [simp]:
  "savedStreams (stop_stream sid s) = savedStreams s"
  "savedFile (stop_stream sid s) = savedFile s"
  by (simp_all add: stop_stream_def Let_def)

lemma store_screenshot [simp]:
  "savedStreams (screenshot sid now s) = savedStreams s"
  "savedFile (screenshot sid now s) = savedFile s"
  by (simp_all add: screenshot_def Let_def split: option.splits)

lemma store_on_capture_error [simp]:
  "savedStreams (on_capture_error rid s) = savedStreams s"
  "savedFile (on_capture_error rid s) = savedFile s"
  by (simp_all add: on_capture_error_def split: option.splits)

lemma all_shots_on_poll: "all_shots (on_poll rid now ok s) = all_shots s"
  using all_shots_upsert [of _ _ _ _ now ok s]
  by (simp add: on_poll_def all_shots_def split: option.splits)

lemma all_shots_update: "all_shots (saved_streams_update url l n ok s) = all_shots s"
  by (simp add: saved_streams_update_def Let_def update_list_def
      persistSavedStreams_def all_shots_def concat_shots_modify_first
      split: option.splits)

lemma all_shots_step:
  "all_shots (step e s) \<noteq> all_shots s \<Longrightarrow>
   \<exists>rid now ok c. e = CaptureEnd rid now ok \<and> captures s rid = Some c"
proof (cases e)
  case (CaptureEnd rid now ok)
  assume "all_shots (step e s) \<noteq> all_shots s"
  thus ?thesis by (cases "captures s rid") (simp_all add: CaptureEnd on_capture_end_def)
qed (simp_all add: all_shots_on_poll all_shots_update, simp_all add: all_shots_def)

text \<open>
  Claim C6. A screenshot request for an id that is not registered is answered 404, and one
  for a registered session whose playlist does not exist is answered 400; both leave the
  whole state as it is, but for the request counter and the list of responses. A failed
  extraction is answered 500 and changes nothing else. In none of these cases do the
  metadata store or the storage file change. Across all handlers and callbacks, the
  screenshot entries of the store change only in the \<open>end\<close> callback of an extraction,
  which puts the new record first for the session's URL and answers 200.
\<close>

theorem capture_failures_leave_store:
  "(map_of (activeStreams s) sid = None \<longrightarrow>
      screenshot sid now s
        = s\<lparr> next_req := Suc (next_req s),
             responses := responses s @ [(next_req s, Response 404 (ErrorBody ''Stream not found''))] \<rparr>)
   \<and> (map_of (activeStreams s) sid = Some info \<and> playlistPath info \<notin> disk s \<longrightarrow>
      screenshot sid now s
        = s\<lparr> next_req := Suc (next_req s),
             responses := responses s
               @ [(next_req s, Response 400 (ErrorBody ''Stream playlist not ready''))] \<rparr>)
   \<and> (captures s rid = Some c \<longrightarrow>
      on_capture_error rid s
        = s\<lparr> responses := responses s
               @ [(rid, Response 500 (ErrorBody ''Failed to capture screenshot''))] \<rparr>)
   \<and> savedStreams (screenshot sid now s) = savedStreams s
   \<and> savedFile (screenshot sid now s) = savedFile s
   \<and> savedStreams (on_capture_error rid s) = savedStreams s
   \<and> savedFile (on_capture_error rid s) = savedFile s
   \<and> (all_shots (step e s) \<noteq> all_shots s \<longrightarrow>
        (\<exists>rid' now' ok c'. e = CaptureEnd rid' now' ok \<and> captures s rid' = Some c'))
   \<and> (captures s rid = Some c \<longrightarrow>
        shots_of (cap_rtspUrl c) (savedStreams (on_capture_end rid now ok s))
          = take 20 (Shot (cap_fileName c) now # shots_of (cap_rtspUrl c) (savedStreams s))
        \<and> responses (on_capture_end rid now ok s)
          = responses s @ [(rid, Response 200 (CapturedBody (cap_fileName c)))])"
proof -
  have 1: "map_of (activeStreams s) sid = None \<longrightarrow>
      screenshot sid now s
        = s\<lparr> next_req := Suc (next_req s),
             responses := responses s @ [(next_req s, Response 404 (ErrorBody ''Stream not found''))] \<rparr>"
    by (simp add: screenshot_def Let_def respond_def)
  have 2: "map_of (activeStreams s) sid = Some info \<and> playlistPath info \<notin> disk s \<longrightarrow>
      screenshot sid now s
        = s\<lparr> next_req := Suc (next_req s),
             responses := responses s
               @ [(next_req s, Response 400 (ErrorBody ''Stream playlist not ready''))] \<rparr>"
    by (simp add: screenshot_def Let_def respond_def)
  have 3: "captures s rid = Some c \<longrightarrow>
      on_capture_error rid s
        = s\<lparr> responses := responses s
               @ [(rid, Response 500 (ErrorBody ''Failed to capture screenshot''))] \<rparr>"
    by (simp add: on_capture_error_def respond_def)
  have 4: "all_shots (step e s) \<noteq> all_shots s \<longrightarrow>
        (\<exists>rid' now' ok c'. e = CaptureEnd rid' now' ok \<and> captures s rid' = Some c')"
    using all_shots_step [of e s] by blast
  have 5: "captures s rid = Some c \<longrightarrow>
        shots_of (cap_rtspUrl c) (savedStreams (on_capture_end rid now ok s))
          = take 20 (Shot (cap_fileName c) now # shots_of (cap_rtspUrl c) (savedStreams s))
        \<and> responses (on_capture_end rid now ok s)
          = responses s @ [(rid, Response 200 (CapturedBody (cap_fileName c)))]"
    by (simp add: on_capture_end_def savedStreams_addScreenshotRecord shots_of_addshot_list
        respond_def addScreenshotRecord_def persistSavedStreams_def)
  from 1 2 3 4 5 show ?thesis by simp
qed


theorem capture_failures_leave_store_witness:
  "screenshot (ascii ''id9'') (ascii ''t'') (startup [] {})
     = (startup [] {})\<lparr> next_req := Suc 0,
          responses := [(0, Response 404 (ErrorBody ''Stream not found''))] \<rparr>
   \<and> responses (screenshot (ascii ''id1'') (ascii ''t'')
        (start_stream (JStr (ascii ''u'')) JUndefined JUndefined (ascii ''id1'') 0 (startup [] {})))
      = [(1, Response 400 (ErrorBody ''Stream playlist not ready''))]
   \<and> savedStreams (on_capture_error 1
        (screenshot (ascii ''id1'') (ascii ''t'')
          (playlist_written 0
            (on_start 0
              (start_stream (JStr (ascii ''u'')) JUndefined JUndefined (ascii ''id1'') 0
                (startup [] {})))))) = []
   \<and> responses (on_capture_error 1
        (screenshot (ascii ''id1'') (ascii ''t'')
          (playlist_written 0
            (on_start 0
              (start_stream (JStr (ascii ''u'')) JUndefined JUndefined (ascii ''id1'') 0
                (startup [] {}))))))
      = [(1, Response 500 (ErrorBody ''Failed to capture screenshot''))]"
proof -
  let ?s1 = "start_stream (JStr (ascii ''u'')) JUndefined JUndefined (ascii ''id1'') 0 (startup [] {})"
  let ?info = "\<lparr> info_rtspUrl = JStr (ascii ''u''), info_label = [], info_notes = [],
                 ffmpegProcess = 0, streamDir = StreamDir (ascii ''id1''),
                 playlistPath = StreamFile (ascii ''id1'') ''playlist.m3u8'', startTime = 0 \<rparr>"
  let ?s2 = "playlist_written 0 (on_start 0 ?s1)"
  let ?s3 = "screenshot (ascii ''id1'') (ascii ''t'') ?s2"
  have a: "map_of (activeStreams (startup [] {})) (ascii ''id9'') = None"
    "next_req (startup [] {}) = 0" "responses (startup [] {}) = []"
    "savedStreams (startup [] {}) = []"
    by (simp_all add: startup_def)
  have b: "map_of (activeStreams ?s1) (ascii ''id1'') = Some ?info" "next_req ?s1 = 1"
    "responses ?s1 = []" "playlistPath ?info \<notin> disk ?s1"
    by (simp_all add: start_stream_def startup_def Let_def ascii_def ensureDirectoryExists_def
        mkdirSync_recursive_def sanitizeText_def)
  have c: "captures ?s3 1 = Some \<lparr> cap_rtspUrl = JStr (ascii ''u''), cap_streamId = ascii ''id1'',
              cap_fileName = capture_fileName (ascii ''id1'') (ascii ''t'') \<rparr>"
    "responses ?s3 = []"
    by (simp_all add: screenshot_def playlist_written_def on_start_def start_stream_def
        startup_def Let_def
        ascii_def ensureDirectoryExists_def mkdirSync_recursive_def sanitizeText_def)
  show ?thesis
    using capture_failures_leave_store [where s = "startup [] {}" and sid = "ascii ''id9''"
        and now = "ascii ''t''" and info = ?info and rid = 0
        and c = "\<lparr> cap_rtspUrl = JNull, cap_streamId = [], cap_fileName = [] \<rparr>"
        and e = "CaptureError 0" and ok = True]
      capture_failures_leave_store [where s = ?s1 and sid = "ascii ''id1''"
        and now = "ascii ''t''" and info = ?info and rid = 0
        and c = "\<lparr> cap_rtspUrl = JNull, cap_streamId = [], cap_fileName = [] \<rparr>"
        and e = "CaptureError 0" and ok = True]
      capture_failures_leave_store [where s = ?s3 and sid = "ascii ''id1''"
        and now = "ascii ''t''" and info = ?info and rid = 1
        and c = "\<lparr> cap_rtspUrl = JStr (ascii ''u''), cap_streamId = ascii ''id1'',
              cap_fileName = capture_fileName (ascii ''id1'') (ascii ''t'') \<rparr>"
        and e = "CaptureError 0" and ok = True]
      a b c
    by simp
qed

section \<open>The start request\<close>

subsection \<open>What each function leaves alone\<close>

lemma answers_respond:
  "answers rid (respond r st b s) = (if r = rid then answers rid s @ [Response st b] else answers rid s)"
  by (simp add: answers_def respond_def)

lemma frame_respond [simp]:
  "pending (respond r st b s) = pending s"
  "captures (respond r st b s) = captures s"
  "next_req (respond r st b s) = next_req s"
  "disk (respond r st b s) = disk s"
  by (simp_all add: respond_def)

lemma frame_cleanupStream [simp]:
  "pending (cleanupStream sid s) = pending s"
  "captures (cleanupStream sid s) = captures s"
  by (simp_all add: cleanupStream_def split: option.splits)

lemma frame_upsert [simp]:
  "pending (upsertSavedStream url sid l n now ok s) = pending s"
  "captures (upsertSavedStream url sid l n now ok s) = captures s"
  "next_req (upsertSavedStream url sid l n now ok s) = next_req s"
  "responses (upsertSavedStream url sid l n now ok s) = responses s"
  by (simp_all add: upsertSavedStream_def persistSavedStreams_def)

lemma frame_addshot [simp]:
  "pending (addScreenshotRecord url sid f now ok s) = pending s"
  "captures (addScreenshotRecord url sid f now ok s) = captures s"
  "next_req (addScreenshotRecord url sid f now ok s) = next_req s"
  "responses (addScreenshotRecord url sid f now ok s) = responses s"
  by (simp_all add: addScreenshotRecord_def persistSavedStreams_def)

lemma frame_finalize [simp]:
  "captures (finalize r st b s) = captures s"
  "next_req (finalize r st b s) = next_req s"
  "disk (finalize r st b s) = disk s"
  by (simp_all add: finalize_def split: option.splits)

lemma pending_finalize_other: "r \<noteq> rid \<Longrightarrow> pending (finalize r st b s) rid = pending s rid"
  by (simp add: finalize_def split: option.splits)

lemma answers_finalize_other: "r \<noteq> rid \<Longrightarrow> answers rid (finalize r st b s) = answers rid s"
  by (simp add: finalize_def answers_respond split: option.splits) (simp add: answers_def)

lemma settled_once_frame:
  assumes "settled_once rid s" and "pending s' rid = pending s rid"
    and "captures s' rid = captures s rid" and "next_req s \<le> next_req s'"
    and "answers rid s' = answers rid s"
  shows "settled_once rid s'"
  using assms by (simp add: settled_once_def split: option.splits)

lemma step_other:
  assumes "rid < next_req s" and "captures s rid = None" and "\<not> callback_of rid e"
  shows "pending (step e s) rid = pending s rid \<and> captures (step e s) rid = None
         \<and> next_req s \<le> next_req (step e s) \<and> answers rid (step e s) = answers rid s"
proof (cases e)
  case (StartStream url l n sid ms)
  thus ?thesis using assms
    by (simp add: start_stream_def Let_def answers_respond) (simp add: answers_def)
next
  case (FfmpegStart r)
  thus ?thesis using assms by (simp add: on_start_def answers_def)
next
  case (FfmpegError r)
  thus ?thesis using assms
    by (simp add: on_error_def pending_finalize_other answers_finalize_other split: option.splits)
      (simp add: answers_def)
next
  case (FfmpegEnd r)
  thus ?thesis using assms
    by (simp add: on_end_def pending_finalize_other answers_finalize_other split: option.splits)
      (simp add: answers_def)
next
  case (PollTick r now ok)
  thus ?thesis using assms
    by (simp add: on_poll_def pending_finalize_other answers_finalize_other split: option.splits)
      (simp add: answers_def)
next
  case (TimeoutFire r)
  thus ?thesis using assms
    by (simp add: on_timeout_def pending_finalize_other answers_finalize_other split: option.splits)
      (simp add: answers_def)
next
  case (PlaylistWritten r)
  thus ?thesis using assms
    by (simp add: playlist_written_def answers_def split: option.splits)
next
  case (StopStream sid)
  thus ?thesis using assms
    by (simp add: stop_stream_def Let_def answers_respond) (simp add: answers_def)
next
  case (UpdateSaved url l n ok)
  thus ?thesis using assms
    by (simp add: saved_streams_update_def Let_def answers_respond persistSavedStreams_def
        split: prod.splits) (simp add: answers_def persistSavedStreams_def)
next
  case (Screenshot sid now)
  thus ?thesis using assms
    by (simp add: screenshot_def Let_def answers_respond split: option.splits)
      (simp add: answers_def)
next
  case (CaptureEnd r now ok)
  thus ?thesis using assms
    by (auto simp: on_capture_end_def answers_respond split: option.splits)
      (simp_all add: answers_def)
next
  case (CaptureError r)
  thus ?thesis using assms
    by (auto simp: on_capture_error_def answers_respond split: option.splits)
qed

lemma answers_cleanupStream [simp]: "answers rid (cleanupStream sid s) = answers rid s"
  by (simp add: answers_def)

lemma answers_upsert [simp]: "answers rid (upsertSavedStream url sid l n now ok s) = answers rid s"
  by (simp add: answers_def)

lemma answers_procs [simp]: "answers rid (s\<lparr> procs := p \<rparr>) = answers rid s"
  by (simp add: answers_def)

lemma answers_pending [simp]: "answers rid (s\<lparr> pending := p \<rparr>) = answers rid s"
  by (simp add: answers_def)

lemma finalize_settles:
  assumes "rid < next_req s" and "captures s rid = None" and "pending s rid = Some c"
    and "responded c \<Longrightarrow> pollTimer c = Timer False \<and> timeoutTimer c = Timer False
           \<and> (case answers rid s of [r] \<Rightarrow> outcome_of r \<noteq> None | _ \<Rightarrow> False)"
    and "\<not> responded c \<Longrightarrow> answers rid s = [] \<and> pollTimer c \<noteq> NoTimer \<and> timeoutTimer c \<noteq> NoTimer"
    and "outcome_of (Response st b) \<noteq> None"
  shows "settled_once rid (finalize rid st b s) \<and> answered rid (finalize rid st b s)
         \<and> answers rid (finalize rid st b s) = (if responded c then answers rid s else [Response st b])
         \<and> map_option request_of (pending (finalize rid st b s) rid) = Some (request_of c)"
proof (cases "responded c")
  case True
  thus ?thesis using assms
    by (simp add: finalize_def settled_once_def answered_def)
next
  case False
  with assms(5) obtain x y where "pollTimer c = Timer x" "timeoutTimer c = Timer y"
    by (cases "pollTimer c"; cases "timeoutTimer c") auto
  thus ?thesis using False assms
    by (simp add: finalize_def settled_once_def answered_def answers_respond request_of_def)
qed

lemma settled_onceD:
  assumes "settled_once rid s"
  shows "\<exists>c. pending s rid = Some c \<and> rid < next_req s \<and> captures s rid = None
    \<and> (responded c \<longrightarrow> pollTimer c = Timer False \<and> timeoutTimer c = Timer False
           \<and> (case answers rid s of [r] \<Rightarrow> outcome_of r \<noteq> None | _ \<Rightarrow> False))
    \<and> (\<not> responded c \<longrightarrow> answers rid s = [] \<and> pollTimer c = Timer True \<and> timeoutTimer c = Timer True)"
  using assms by (auto simp: settled_once_def split: option.splits if_splits)

text \<open>The three callbacks that always answer, and the poll.\<close>

lemma on_error_settles:
  assumes "settled_once rid s"
  shows "settled_once rid (on_error rid s) \<and> answered rid (on_error rid s)
     \<and> answers rid (on_error rid s)
        = (if answered rid s then answers rid s
           else [Response 500 (ErrorBody ''Failed to start stream - check RTSP URL and credentials'')])
     \<and> map_option request_of (pending (on_error rid s) rid) = map_option request_of (pending s rid)"
proof -
  from settled_onceD [OF assms] obtain c where c: "pending s rid = Some c" "rid < next_req s"
    "captures s rid = None"
    "responded c \<longrightarrow> pollTimer c = Timer False \<and> timeoutTimer c = Timer False
           \<and> (case answers rid s of [r] \<Rightarrow> outcome_of r \<noteq> None | _ \<Rightarrow> False)"
    "\<not> responded c \<longrightarrow> answers rid s = [] \<and> pollTimer c = Timer True \<and> timeoutTimer c = Timer True"
    by blast
  let ?s1 = "cleanupStream (req_streamId c) (s\<lparr> procs := (procs s)(rid \<mapsto> Exited) \<rparr>)"
  have "settled_once rid (finalize rid 500
          (ErrorBody ''Failed to start stream - check RTSP URL and credentials'') ?s1)
        \<and> answered rid (finalize rid 500
          (ErrorBody ''Failed to start stream - check RTSP URL and credentials'') ?s1)
        \<and> answers rid (finalize rid 500
          (ErrorBody ''Failed to start stream - check RTSP URL and credentials'') ?s1)
          = (if responded c then answers rid ?s1
             else [Response 500 (ErrorBody ''Failed to start stream - check RTSP URL and credentials'')])
        \<and> map_option request_of (pending (finalize rid 500
          (ErrorBody ''Failed to start stream - check RTSP URL and credentials'') ?s1) rid)
          = Some (request_of c)"
    using c by (intro finalize_settles) auto
  thus ?thesis using c(1) by (simp add: on_error_def answered_def)
qed

lemma on_end_settles:
  assumes "settled_once rid s"
  shows "settled_once rid (on_end rid s) \<and> answered rid (on_end rid s)
     \<and> answers rid (on_end rid s)
        = (if answered rid s then answers rid s
           else [Response 500 (ErrorBody ''Stream ended before startup completed'')])
     \<and> map_option request_of (pending (on_end rid s) rid) = map_option request_of (pending s rid)"
proof -
  from settled_onceD [OF assms] obtain c where c: "pending s rid = Some c" "rid < next_req s"
    "captures s rid = None"
    "responded c \<longrightarrow> pollTimer c = Timer False \<and> timeoutTimer c = Timer False
           \<and> (case answers rid s of [r] \<Rightarrow> outcome_of r \<noteq> None | _ \<Rightarrow> False)"
    "\<not> responded c \<longrightarrow> answers rid s = [] \<and> pollTimer c = Timer True \<and> timeoutTimer c = Timer True"
    by blast
  let ?s1 = "cleanupStream (req_streamId c) (s\<lparr> procs := (procs s)(rid \<mapsto> Exited) \<rparr>)"
  have "settled_once rid (finalize rid 500 (ErrorBody ''Stream ended before startup completed'') ?s1)
        \<and> answered rid (finalize rid 500 (ErrorBody ''Stream ended before startup completed'') ?s1)
        \<and> answers rid (finalize rid 500 (ErrorBody ''Stream ended before startup completed'') ?s1)
          = (if responded c then answers rid ?s1
             else [Response 500 (ErrorBody ''Stream ended before startup completed'')])
        \<and> map_option request_of (pending (finalize rid 500
             (ErrorBody ''Stream ended before startup completed'') ?s1) rid)
          = Some (request_of c)"
    using c by (intro finalize_settles) auto
  thus ?thesis using c(1) by (simp add: on_end_def answered_def)
qed

lemma on_timeout_settles:
  assumes "settled_once rid s"
  shows "settled_once rid (on_timeout rid s) \<and> answered rid (on_timeout rid s)
     \<and> answers rid (on_timeout rid s)
        = (if answered rid s then answers rid s
           else [Response 500 (ErrorBody ''Stream startup timed out'')])
     \<and> map_option request_of (pending (on_timeout rid s) rid) = map_option request_of (pending s rid)"
proof -
  from settled_onceD [OF assms] obtain c where c: "pending s rid = Some c" "rid < next_req s"
    "captures s rid = None"
    "responded c \<longrightarrow> pollTimer c = Timer False \<and> timeoutTimer c = Timer False
           \<and> (case answers rid s of [r] \<Rightarrow> outcome_of r \<noteq> None | _ \<Rightarrow> False)"
    "\<not> responded c \<longrightarrow> answers rid s = [] \<and> pollTimer c = Timer True \<and> timeoutTimer c = Timer True"
    by blast
  show ?thesis
  proof (cases "responded c")
    case True
    thus ?thesis using c assms by (simp add: on_timeout_def answered_def)
  next
    case False
    let ?c1 = "c\<lparr> timeoutTimer := Timer False \<rparr>"
    let ?s1 = "cleanupStream (req_streamId c) (s\<lparr> pending := (pending s)(rid \<mapsto> ?c1) \<rparr>)"
    have "settled_once rid (finalize rid 500 (ErrorBody ''Stream startup timed out'') ?s1)
        \<and> answered rid (finalize rid 500 (ErrorBody ''Stream startup timed out'') ?s1)
        \<and> answers rid (finalize rid 500 (ErrorBody ''Stream startup timed out'') ?s1)
          = (if responded ?c1 then answers rid ?s1
             else [Response 500 (ErrorBody ''Stream startup timed out'')])
        \<and> map_option request_of (pending (finalize rid 500
             (ErrorBody ''Stream startup timed out'') ?s1) rid)
          = Some (request_of ?c1)"
      using c False by (intro finalize_settles) auto
    thus ?thesis using c False by (simp add: on_timeout_def answered_def request_of_def)
  qed
qed

lemma on_poll_settles:
  assumes "settled_once rid s" and "pending s rid = Some c"
  shows "settled_once rid (on_poll rid now ok s)
     \<and> (answered rid s \<longrightarrow> answered rid (on_poll rid now ok s))
     \<and> answers rid (on_poll rid now ok s)
        = (if answered rid s \<or> req_playlistPath c \<notin> disk s then answers rid s
           else [Response 200 (StartedBody (req_streamId c) (sanitizeText (req_label c) 60)
                                (sanitizeText (req_notes c) 280))])
     \<and> map_option request_of (pending (on_poll rid now ok s) rid) = map_option request_of (pending s rid)"
proof -
  from settled_onceD [OF assms(1)] assms(2) have c: "pending s rid = Some c" "rid < next_req s"
    "captures s rid = None"
    "responded c \<longrightarrow> pollTimer c = Timer False \<and> timeoutTimer c = Timer False
           \<and> (case answers rid s of [r] \<Rightarrow> outcome_of r \<noteq> None | _ \<Rightarrow> False)"
    "\<not> responded c \<longrightarrow> answers rid s = [] \<and> pollTimer c = Timer True \<and> timeoutTimer c = Timer True"
    by auto
  show ?thesis
  proof (cases "responded c \<or> req_playlistPath c \<notin> disk s")
    case True
    thus ?thesis using c assms by (auto simp: on_poll_def answered_def)
  next
    case False
    let ?s1 = "upsertSavedStream (req_rtspUrl c) (req_streamId c) (req_label c) (req_notes c) now ok s"
    let ?b = "StartedBody (req_streamId c) (sanitizeText (req_label c) 60)
                (sanitizeText (req_notes c) 280)"
    have "settled_once rid (finalize rid 200 ?b ?s1)
        \<and> answered rid (finalize rid 200 ?b ?s1)
        \<and> answers rid (finalize rid 200 ?b ?s1)
          = (if responded c then answers rid ?s1 else [Response 200 ?b])
        \<and> map_option request_of (pending (finalize rid 200 ?b ?s1) rid) = Some (request_of c)"
      using c False by (intro finalize_settles) auto
    thus ?thesis using c False by (simp add: on_poll_def answered_def)
  qed
qed

subsection \<open>Steps and runs\<close>

lemma tracked_step_other:
  assumes "tracked rid R s" and "\<not> callback_of rid e"
  shows "tracked rid R (step e s)
       \<and> (answered rid s \<longrightarrow> answered rid (step e s) \<and> answers rid (step e s) = answers rid s)"
proof -
  from assms have so: "settled_once rid s"
    and R: "map_option request_of (pending s rid) = Some R" by (simp_all add: tracked_def)
  from settled_onceD [OF so] have lt: "rid < next_req s" and cn: "captures s rid = None" by auto
  from step_other [OF lt cn assms(2)]
  have o: "pending (step e s) rid = pending s rid" "captures (step e s) rid = None"
    "next_req s \<le> next_req (step e s)" "answers rid (step e s) = answers rid s" by auto
  have "settled_once rid (step e s)"
    by (rule settled_once_frame [OF so o(1) _ o(3) o(4)]) (simp add: o(2) cn)
  thus ?thesis using o(1) o(4) R by (simp add: tracked_def answered_def)
qed

lemma tracked_step_callback:
  assumes "tracked rid R s" and "callback_of rid e"
  shows "tracked rid R (step e s)
       \<and> (answered rid s \<longrightarrow> answered rid (step e s) \<and> answers rid (step e s) = answers rid s)"
proof -
  from assms have so: "settled_once rid s"
    and R: "map_option request_of (pending s rid) = Some R" by (simp_all add: tracked_def)
  from R obtain c where c: "pending s rid = Some c" by auto
  show ?thesis
  proof (cases e)
    case (FfmpegError r)
    with assms(2) have e: "step e s = on_error rid s" by simp
    show ?thesis unfolding e tracked_def using on_error_settles [OF so] R by simp
  next
    case (FfmpegEnd r)
    with assms(2) have e: "step e s = on_end rid s" by simp
    show ?thesis unfolding e tracked_def using on_end_settles [OF so] R by simp
  next
    case (PollTick r now ok)
    with assms(2) have e: "step e s = on_poll rid now ok s" by simp
    show ?thesis unfolding e tracked_def using on_poll_settles [OF so c, of now ok] R by simp
  next
    case (TimeoutFire r)
    with assms(2) have e: "step e s = on_timeout rid s" by simp
    show ?thesis unfolding e tracked_def using on_timeout_settles [OF so] R by simp
  next
    case (StartStream x1 x2 x3 x4 x5)
    with assms(2) show ?thesis by simp
  next
    case (FfmpegStart x)
    with assms(2) show ?thesis by simp
  next
    case (PlaylistWritten x)
    with assms(2) show ?thesis by simp
  next
    case (StopStream x)
    with assms(2) show ?thesis by simp
  next
    case (UpdateSaved x1 x2 x3 x4)
    with assms(2) show ?thesis by simp
  next
    case (Screenshot x1 x2)
    with assms(2) show ?thesis by simp
  next
    case (CaptureEnd x1 x2 x3)
    with assms(2) show ?thesis by simp
  next
    case (CaptureError x)
    with assms(2) show ?thesis by simp
  qed
qed

lemma tracked_step:
  assumes "tracked rid R s"
  shows "tracked rid R (step e s)
       \<and> (answered rid s \<longrightarrow> answered rid (step e s) \<and> answers rid (step e s) = answers rid s)"
  by (cases "callback_of rid e")
    (rule tracked_step_callback [OF assms], assumption, rule tracked_step_other [OF assms], assumption)

lemma tracked_trigger:
  assumes "tracked rid R s" and "e = TimeoutFire rid \<or> e = FfmpegError rid \<or> e = FfmpegEnd rid"
  shows "answered rid (step e s)"
proof -
  from assms(1) have so: "settled_once rid s" by (simp add: tracked_def)
  from assms(2) consider "e = TimeoutFire rid" | "e = FfmpegError rid" | "e = FfmpegEnd rid"
    by blast
  thus ?thesis
  proof cases
    case 1
    thus ?thesis using on_timeout_settles [OF so] by simp
  next
    case 2
    thus ?thesis using on_error_settles [OF so] by simp
  next
    case 3
    thus ?thesis using on_end_settles [OF so] by simp
  qed
qed

lemma tracked_run: "tracked rid R s \<Longrightarrow> tracked rid R (run evs s)"
proof (induction evs arbitrary: s)
  case Nil
  thus ?case by simp
next
  case (Cons e evs)
  from tracked_step [OF Cons.prems, of e] have "tracked rid R (step e s)" by blast
  from Cons.IH [OF this] show ?case by simp
qed

lemma answered_run:
  "tracked rid R s \<Longrightarrow> answered rid s \<Longrightarrow>
   answered rid (run evs s) \<and> answers rid (run evs s) = answers rid s"
proof (induction evs arbitrary: s)
  case Nil
  thus ?case by simp
next
  case (Cons e evs)
  from tracked_step [OF Cons.prems(1), of e] Cons.prems(2)
  have 1: "tracked rid R (step e s)" and 2: "answered rid (step e s)"
    and 3: "answers rid (step e s) = answers rid s" by blast+
  from Cons.IH [OF 1 2] 3 show ?case by simp
qed

lemma trigger_run:
  "tracked rid R s \<Longrightarrow>
   TimeoutFire rid \<in> set evs \<or> FfmpegError rid \<in> set evs \<or> FfmpegEnd rid \<in> set evs \<Longrightarrow>
   answered rid (run evs s)"
proof (induction evs arbitrary: s)
  case Nil
  thus ?case by simp
next
  case (Cons e evs)
  from tracked_step [OF Cons.prems(1), of e] have t: "tracked rid R (step e s)" by blast
  show ?case
  proof (cases "e = TimeoutFire rid \<or> e = FfmpegError rid \<or> e = FfmpegEnd rid")
    case True
    from answered_run [OF t tracked_trigger [OF Cons.prems(1) True], of evs]
    show ?thesis by simp
  next
    case False
    with Cons.prems(2)
    have "TimeoutFire rid \<in> set evs \<or> FfmpegError rid \<in> set evs \<or> FfmpegEnd rid \<in> set evs"
      by auto
    from Cons.IH [OF t this] show ?thesis by simp
  qed
qed

lemma settled_once_answers:
  assumes "settled_once rid s"
  shows "length (answers rid s) \<le> 1 \<and> list_all (\<lambda>r. outcome_of r \<noteq> None) (answers rid s)
         \<and> (answers rid s = [] \<longleftrightarrow> \<not> answered rid s)
         \<and> (answered rid s \<longrightarrow> length (answers rid s) = 1)"
proof -
  from settled_onceD [OF assms] obtain c where c: "pending s rid = Some c"
    "responded c \<longrightarrow> (case answers rid s of [r] \<Rightarrow> outcome_of r \<noteq> None | _ \<Rightarrow> False)"
    "\<not> responded c \<longrightarrow> answers rid s = []"
    by blast
  show ?thesis
  proof (cases "responded c")
    case True
    with c(2) obtain r where "answers rid s = [r]" "outcome_of r \<noteq> None"
      by (auto split: list.splits)
    thus ?thesis using c(1) True by (simp add: answered_def)
  next
    case False
    with c(3) show ?thesis using c(1) by (simp add: answered_def)
  qed
qed

subsection \<open>Request numbers\<close>

lemma numbered_startup: "numbered (startup loaded disk0)"
  by (simp add: numbered_def startup_def)

lemma list_all_mono_lt:
  "list_all (\<lambda>(r, _). r < n) xs \<Longrightarrow> n \<le> m \<Longrightarrow> list_all (\<lambda>(r, _). r < (m::nat)) xs"
  by (induction xs) auto

lemma numbered_frame:
  assumes "numbered s" and "pending s' = pending s" and "captures s' = captures s"
    and "next_req s' = next_req s" and "responses s' = responses s"
  shows "numbered s'"
  using assms by (simp add: numbered_def)

lemma numbered_respond:
  "numbered s \<Longrightarrow> r < next_req s \<Longrightarrow> numbered (respond r st b s)"
  by (simp add: numbered_def respond_def)

lemma numbered_finalize: "numbered s \<Longrightarrow> numbered (finalize r st b s)"
proof -
  assume n: "numbered s"
  show ?thesis
  proof (cases "pending s r")
    case None
    thus ?thesis using n by (simp add: finalize_def)
  next
    case (Some c)
    hence "r < next_req s" using n by (auto simp: numbered_def not_le [symmetric])
    thus ?thesis using n Some
      by (auto simp: finalize_def numbered_def respond_def)
  qed
qed

lemma numbered_bump:
  "numbered s \<Longrightarrow> numbered (s\<lparr> next_req := Suc (next_req s) \<rparr>)"
  by (auto simp: numbered_def intro: list_all_mono_lt)

lemma numbered_cleanupStream: "numbered s \<Longrightarrow> numbered (cleanupStream sid s)"
  by (rule numbered_frame) simp_all

lemma numbered_step: "numbered s \<Longrightarrow> numbered (step e s)"
proof (cases e)
  case (StartStream url l n sid ms)
  assume n: "numbered s"
  have b: "numbered (s\<lparr> next_req := Suc (next_req s) \<rparr>)" using n by (rule numbered_bump)
  have d: "\<And>d. numbered (s\<lparr> next_req := Suc (next_req s), disk := d \<rparr>)"
    using b by (rule numbered_frame) simp_all
  show ?thesis
  proof (cases "truthy url \<and> command_builds url")
    case False
    thus ?thesis
      using numbered_respond [OF b, of "next_req s"] numbered_respond [OF d, of "next_req s"]
      by (auto simp: StartStream start_stream_def Let_def)
  next
    case True
    thus ?thesis using b
      by (auto simp: StartStream start_stream_def Let_def numbered_def)
  qed
next
  case (FfmpegStart r)
  assume n: "numbered s"
  have "\<And>p. numbered (s\<lparr> procs := p \<rparr>)" using n by (rule numbered_frame) simp_all
  thus ?thesis using n by (simp add: FfmpegStart on_start_def)
next
  case (FfmpegError r)
  assume n: "numbered s"
  have "numbered (s\<lparr> procs := (procs s)(r \<mapsto> Exited) \<rparr>)"
    using n by (rule numbered_frame) simp_all
  thus ?thesis using n
    by (simp add: FfmpegError on_error_def numbered_finalize numbered_cleanupStream
        split: option.splits)
next
  case (FfmpegEnd r)
  assume n: "numbered s"
  have "numbered (s\<lparr> procs := (procs s)(r \<mapsto> Exited) \<rparr>)"
    using n by (rule numbered_frame) simp_all
  thus ?thesis using n
    by (simp add: FfmpegEnd on_end_def numbered_finalize numbered_cleanupStream
        split: option.splits)
next
  case (PollTick r now ok)
  assume n: "numbered s"
  have "\<And>u i l m. numbered (upsertSavedStream u i l m now ok s)"
    using n by (rule numbered_frame) simp_all
  thus ?thesis using n
    by (simp add: PollTick on_poll_def numbered_finalize split: option.splits)
next
  case (TimeoutFire r)
  assume n: "numbered s"
  have "\<And>c. pending s r = Some c \<Longrightarrow>
     numbered (s\<lparr> pending := (pending s)(r \<mapsto> c\<lparr> timeoutTimer := Timer False \<rparr>) \<rparr>)"
    using n by (auto simp: numbered_def)
  thus ?thesis using n
    by (simp add: TimeoutFire on_timeout_def numbered_finalize numbered_cleanupStream
        split: option.splits)
next
  case (PlaylistWritten r)
  assume n: "numbered s"
  have "\<And>d. numbered (s\<lparr> disk := d \<rparr>)" using n by (rule numbered_frame) simp_all
  thus ?thesis using n by (simp add: PlaylistWritten playlist_written_def split: option.splits)
next
  case (StopStream sid)
  assume n: "numbered s"
  have b: "numbered (s\<lparr> next_req := Suc (next_req s) \<rparr>)" using n by (rule numbered_bump)
  show ?thesis
    using numbered_respond [OF b, of "next_req s"]
      numbered_respond [OF numbered_cleanupStream [OF b], of "next_req s"]
    by (simp add: StopStream stop_stream_def Let_def)
next
  case (UpdateSaved url l n ok)
  assume n: "numbered s"
  have b: "numbered (s\<lparr> next_req := Suc (next_req s) \<rparr>)" using n by (rule numbered_bump)
  have "\<And>sv. numbered (persistSavedStreams ok (s\<lparr> next_req := Suc (next_req s), savedStreams := sv \<rparr>))"
    using b by (rule numbered_frame) (simp_all add: persistSavedStreams_def)
  moreover have "\<And>sv. next_req (persistSavedStreams ok
      (s\<lparr> next_req := Suc (next_req s), savedStreams := sv \<rparr>)) = Suc (next_req s)"
    by (simp add: persistSavedStreams_def)
  ultimately have "\<And>sv st b. numbered (respond (next_req s) st b
      (persistSavedStreams ok (s\<lparr> next_req := Suc (next_req s), savedStreams := sv \<rparr>)))"
    by (intro numbered_respond) simp_all
  with numbered_respond [OF b, of "next_req s"]
  show ?thesis
    by (simp add: UpdateSaved saved_streams_update_def Let_def split: prod.splits)
next
  case (Screenshot sid now)
  assume n: "numbered s"
  have b: "numbered (s\<lparr> next_req := Suc (next_req s) \<rparr>)" using n by (rule numbered_bump)
  show ?thesis
    using numbered_respond [OF b, of "next_req s"] b
    by (auto simp: Screenshot screenshot_def Let_def numbered_def split: option.splits)
next
  case (CaptureEnd r now ok)
  assume n: "numbered s"
  have a: "\<And>u i f. numbered (addScreenshotRecord u i f now ok s)"
    using n by (rule numbered_frame) simp_all
  show ?thesis
  proof (cases "captures s r")
    case None
    thus ?thesis using n by (simp add: CaptureEnd on_capture_end_def)
  next
    case (Some c)
    hence "r < next_req s" using n by (auto simp: numbered_def not_le [symmetric])
    thus ?thesis using Some numbered_respond [OF a, of r]
      by (simp add: CaptureEnd on_capture_end_def)
  qed
next
  case (CaptureError r)
  assume n: "numbered s"
  show ?thesis
  proof (cases "captures s r")
    case None
    thus ?thesis using n by (simp add: CaptureError on_capture_error_def)
  next
    case (Some c)
    hence "r < next_req s" using n by (auto simp: numbered_def not_le [symmetric])
    thus ?thesis using Some numbered_respond [OF n, of r]
      by (simp add: CaptureError on_capture_error_def)
  qed
qed

lemma numbered_run: "numbered s \<Longrightarrow> numbered (run evs s)"
  by (induction evs arbitrary: s) (simp_all add: numbered_step)

lemma answers_fresh: "numbered s \<Longrightarrow> answers (next_req s) s = []"
proof -
  assume "numbered s"
  hence "list_all (\<lambda>(r, _). r < next_req s) (responses s)" by (simp add: numbered_def)
  hence "filter (\<lambda>(r, _). r = next_req s) (responses s) = []"
    by (induction "responses s" arbitrary: s) (auto simp: filter_empty_conv list_all_iff)
  thus ?thesis by (simp add: answers_def)
qed

lemma start_stream_tracked:
  assumes "numbered s" and "truthy url" and "command_builds url"
  shows "tracked (next_req s) (url, l, n, sid, StreamFile sid ''playlist.m3u8'')
           (start_stream url l n sid ms s)
         \<and> \<not> answered (next_req s) (start_stream url l n sid ms s)"
proof -
  have "captures s (next_req s) = None" using assms(1) by (simp add: numbered_def)
  moreover have "answers (next_req s) (start_stream url l n sid ms s) = answers (next_req s) s"
    using assms(2,3) by (simp add: answers_def start_stream_def Let_def)
  ultimately show ?thesis
    using assms answers_fresh [OF assms(1)]
    by (simp add: tracked_def settled_once_def answered_def request_of_def start_stream_def Let_def)
qed

text \<open>
  Claim C1. Take any state the server can reach, a start request whose URL is a non-empty
  string (with no URL the handler refuses at once, and with a URL that the library does not
  take the handler throws before there is a session or a timer, so neither has triggers),
  and any sequence of handlers and callbacks after it, of this request and of all others,
  in any order. The request is answered at most once, and every answer is one of ready,
  failed and timed out. If the deadline, the error event or the end event of the request
  occurs in the sequence, it is answered exactly once. While it is unanswered, both timers
  are still scheduled (so the deadline is still to come), and the trigger that fires next
  gives the answer: timed out for the deadline, failed for the error and the end event,
  ready for a poll that finds the playlist (a poll that does not find it answers nothing).
  Once it is answered, both timers are cleared and nothing that happens later adds or
  changes an answer.
\<close>

theorem start_request_answered_once:
  assumes "u \<noteq> []"
    and "s0 = run before (startup loaded disk0)"
    and "rid = next_req s0"
    and "s = run evs (start_stream (JStr u) l n sid ms s0)"
  shows "length (answers rid s) \<le> 1
    \<and> list_all (\<lambda>r. outcome_of r \<noteq> None) (answers rid s)
    \<and> (TimeoutFire rid \<in> set evs \<or> FfmpegError rid \<in> set evs \<or> FfmpegEnd rid \<in> set evs
         \<longrightarrow> length (answers rid s) = 1)
    \<and> (answers rid s = [] \<longrightarrow>
          (\<exists>c. pending s rid = Some c \<and> \<not> responded c
               \<and> pollTimer c = Timer True \<and> timeoutTimer c = Timer True)
          \<and> answers rid (step (TimeoutFire rid) s)
              = [Response 500 (ErrorBody ''Stream startup timed out'')]
          \<and> answers rid (step (FfmpegError rid) s)
              = [Response 500 (ErrorBody ''Failed to start stream - check RTSP URL and credentials'')]
          \<and> answers rid (step (FfmpegEnd rid) s)
              = [Response 500 (ErrorBody ''Stream ended before startup completed'')]
          \<and> answers rid (step (PollTick rid now ok) s)
              = (if StreamFile sid ''playlist.m3u8'' \<in> disk s
                 then [Response 200 (StartedBody sid (sanitizeText l 60) (sanitizeText n 280))]
                 else []))
    \<and> (answers rid s \<noteq> [] \<longrightarrow>
          (\<exists>c. pending s rid = Some c \<and> responded c
               \<and> pollTimer c = Timer False \<and> timeoutTimer c = Timer False)
          \<and> answers rid (run later s) = answers rid s)"
proof -
  let ?R = "(JStr u, l, n, sid, StreamFile sid ''playlist.m3u8'')"
  have n0: "numbered s0" unfolding assms(2) by (intro numbered_run numbered_startup)
  have tu: "truthy (JStr u)" "command_builds (JStr u)" using assms(1) by simp_all
  have t1: "tracked rid ?R (start_stream (JStr u) l n sid ms s0)"
    unfolding assms(3) using start_stream_tracked [OF n0 tu] by blast
  hence t: "tracked rid ?R s" unfolding assms(4) by (rule tracked_run)
  hence so: "settled_once rid s" and R: "map_option request_of (pending s rid) = Some ?R"
    by (simp_all add: tracked_def)
  note A = settled_once_answers [OF so]
  from settled_onceD [OF so] obtain c where c: "pending s rid = Some c"
    "responded c \<longrightarrow> pollTimer c = Timer False \<and> timeoutTimer c = Timer False"
    "\<not> responded c \<longrightarrow> pollTimer c = Timer True \<and> timeoutTimer c = Timer True"
    by blast
  have ac: "answered rid s = responded c" using c(1) by (simp add: answered_def)
  have rc: "req_streamId c = sid" "req_label c = l" "req_notes c = n"
    "req_playlistPath c = StreamFile sid ''playlist.m3u8''"
    using R c(1) by (simp_all add: request_of_def)
  have 1: "length (answers rid s) \<le> 1" using A by blast
  have 2: "list_all (\<lambda>r. outcome_of r \<noteq> None) (answers rid s)" using A by blast
  have 3: "TimeoutFire rid \<in> set evs \<or> FfmpegError rid \<in> set evs \<or> FfmpegEnd rid \<in> set evs
         \<longrightarrow> length (answers rid s) = 1"
  proof
    assume tr: "TimeoutFire rid \<in> set evs \<or> FfmpegError rid \<in> set evs \<or> FfmpegEnd rid \<in> set evs"
    from trigger_run [OF t1 tr] have "answered rid s" unfolding assms(4) .
    thus "length (answers rid s) = 1" using A by blast
  qed
  have 4: "(\<exists>c. pending s rid = Some c \<and> \<not> responded c
               \<and> pollTimer c = Timer True \<and> timeoutTimer c = Timer True)
          \<and> answers rid (step (TimeoutFire rid) s)
              = [Response 500 (ErrorBody ''Stream startup timed out'')]
          \<and> answers rid (step (FfmpegError rid) s)
              = [Response 500 (ErrorBody ''Failed to start stream - check RTSP URL and credentials'')]
          \<and> answers rid (step (FfmpegEnd rid) s)
              = [Response 500 (ErrorBody ''Stream ended before startup completed'')]
          \<and> answers rid (step (PollTick rid now ok) s)
              = (if StreamFile sid ''playlist.m3u8'' \<in> disk s
                 then [Response 200 (StartedBody sid (sanitizeText l 60) (sanitizeText n 280))]
                 else [])" if e: "answers rid s = []"
  proof -
    from e A have na: "\<not> answered rid s" by blast
    hence nr: "\<not> responded c" using ac by simp
    have a: "\<exists>c. pending s rid = Some c \<and> \<not> responded c
               \<and> pollTimer c = Timer True \<and> timeoutTimer c = Timer True"
      using c nr by blast
    have b: "answers rid (step (TimeoutFire rid) s)
              = [Response 500 (ErrorBody ''Stream startup timed out'')]"
      using on_timeout_settles [OF so] na by simp
    have d: "answers rid (step (FfmpegError rid) s)
              = [Response 500 (ErrorBody ''Failed to start stream - check RTSP URL and credentials'')]"
      using on_error_settles [OF so] na by simp
    have f: "answers rid (step (FfmpegEnd rid) s)
              = [Response 500 (ErrorBody ''Stream ended before startup completed'')]"
      using on_end_settles [OF so] na by simp
    have g: "answers rid (step (PollTick rid now ok) s)
              = (if StreamFile sid ''playlist.m3u8'' \<in> disk s
                 then [Response 200 (StartedBody sid (sanitizeText l 60) (sanitizeText n 280))]
                 else [])"
      using on_poll_settles [OF so c(1), of now ok] na e by (simp add: rc)
    from a b d f g show ?thesis by blast
  qed
  have 5: "(\<exists>c. pending s rid = Some c \<and> responded c
               \<and> pollTimer c = Timer False \<and> timeoutTimer c = Timer False)
          \<and> answers rid (run later s) = answers rid s" if e: "answers rid s \<noteq> []"
  proof -
    from e A have a: "answered rid s" by blast
    hence "responded c" using ac by simp
    hence "\<exists>c. pending s rid = Some c \<and> responded c
               \<and> pollTimer c = Timer False \<and> timeoutTimer c = Timer False"
      using c by blast
    thus ?thesis using answered_run [OF t a, of later] by blast
  qed
  from 1 2 3 4 5 show ?thesis by blast
qed

theorem start_request_answered_once_witness:
  "length (answers 0
     (run [FfmpegStart 0, PlaylistWritten 0, TimeoutFire 0, PollTick 0 (ascii ''t'') True,
           FfmpegError 0]
        (start_stream (JStr (ascii ''u'')) JUndefined JUndefined (ascii ''id1'') 0
           (run [] (startup [] {}))))) = 1"
proof -
  have t: "ascii ''u'' \<noteq> []" by (simp add: ascii_def)
  have r: "0 = next_req (run [] (startup [] {}))" by (simp add: startup_def)
  show ?thesis
    using start_request_answered_once [OF t refl r refl,
        of "[FfmpegStart 0, PlaylistWritten 0, TimeoutFire 0, PollTick 0 (ascii ''t'') True,
            FfmpegError 0]"
          JUndefined JUndefined "ascii ''id1''" 0 "[]" True "[]"]
    by simp
qed

section \<open>Stopping a session that is starting\<close>

lemma pending_stop_stream: "pending (stop_stream sid s) = pending s"
  by (simp add: stop_stream_def Let_def)


text \<open>
  Claim C2, as stated, fails: the stop handler only calls \<open>cleanupStream\<close>, which knows
  nothing of the timers of the start request. After a start request and a stop request
  for its session, both timers are still scheduled, and the deadline's callback then runs
  and answers the start request.
\<close>

theorem timers_fire_after_stop:
  "map_option (\<lambda>c. (responded c, pollTimer c, timeoutTimer c))
     (pending (stop_stream (ascii ''id1'')
        (start_stream (JStr (ascii ''u'')) JUndefined JUndefined (ascii ''id1'') 0
           (startup [] {}))) 0)
     = Some (False, Timer True, Timer True)
   \<and> responses (stop_stream (ascii ''id1'')
        (start_stream (JStr (ascii ''u'')) JUndefined JUndefined (ascii ''id1'') 0
           (startup [] {})))
     = [(1, Response 200 StoppedBody)]
   \<and> responses (on_timeout 0 (stop_stream (ascii ''id1'')
        (start_stream (JStr (ascii ''u'')) JUndefined JUndefined (ascii ''id1'') 0
           (startup [] {}))))
     = [(1, Response 200 StoppedBody), (0, Response 500 (ErrorBody ''Stream startup timed out''))]"
  by (simp add: stop_stream_def start_stream_def startup_def on_timeout_def finalize_def
      cleanupStream_def respond_def Let_def ascii_def)


text \<open>
  Claim C2, amended. A stop request leaves every start request's closure, and so both of its
  timers, as they are; for a registered session it removes the registry entry, sends the
  process the signal and removes the work directory. The timers are cleared by \<open>finalize\<close>
  when it answers the start request. So for a session stopped while it was starting, the
  deadline's callback still runs after the stop, answers the start request as timed out
  and leaves both timers cleared.
\<close>

theorem stop_leaves_timers:
  "pending (stop_stream sid s) = pending s
   \<and> (map_of (activeStreams s) sid = Some info \<longrightarrow>
        map_of (activeStreams (stop_stream sid s)) sid = None
        \<and> procs (stop_stream sid s) (ffmpegProcess info)
            = map_option kill (procs s (ffmpegProcess info))
        \<and> StreamDir sid \<notin> disk (stop_stream sid s))
   \<and> (pending s rid = Some c \<and> \<not> responded c \<longrightarrow>
        map_option (\<lambda>c. (responded c, pollTimer c, timeoutTimer c))
          (pending (finalize rid st b s) rid)
          = Some (True, clearTimer (pollTimer c), clearTimer (timeoutTimer c)))
   \<and> clearTimer (Timer x) = Timer False
   \<and> (pending s rid = Some c \<and> \<not> responded c \<and> timeoutTimer c = Timer True \<longrightarrow>
        responses (on_timeout rid (stop_stream sid s))
          = responses (stop_stream sid s)
            @ [(rid, Response 500 (ErrorBody ''Stream startup timed out''))]
        \<and> map_option (\<lambda>c. (responded c, pollTimer c, timeoutTimer c))
             (pending (on_timeout rid (stop_stream sid s)) rid)
           = Some (True, clearTimer (pollTimer c), Timer False))"
proof -
  have 1: "pending (stop_stream sid s) = pending s" by (rule pending_stop_stream)
  have 2: "map_of (activeStreams (stop_stream sid s)) sid = None
        \<and> procs (stop_stream sid s) (ffmpegProcess info)
            = map_option kill (procs s (ffmpegProcess info))
        \<and> StreamDir sid \<notin> disk (stop_stream sid s)"
    if "map_of (activeStreams s) sid = Some info"
    using that
    by (simp add: stop_stream_def Let_def respond_def cleanupStream_def delete_conv'
        StreamDir_not_in_rmSync)
  have 3: "map_option (\<lambda>c. (responded c, pollTimer c, timeoutTimer c))
          (pending (finalize rid st b s) rid)
          = Some (True, clearTimer (pollTimer c), clearTimer (timeoutTimer c))"
    if "pending s rid = Some c \<and> \<not> responded c"
    using that by (simp add: finalize_def)
  have 4: "responses (on_timeout rid (stop_stream sid s))
          = responses (stop_stream sid s)
            @ [(rid, Response 500 (ErrorBody ''Stream startup timed out''))]
        \<and> map_option (\<lambda>c. (responded c, pollTimer c, timeoutTimer c))
             (pending (on_timeout rid (stop_stream sid s)) rid)
           = Some (True, clearTimer (pollTimer c), Timer False)"
    if "pending s rid = Some c \<and> \<not> responded c \<and> timeoutTimer c = Timer True"
    using that
    by (simp add: on_timeout_def pending_stop_stream finalize_def respond_def)
  from 1 2 3 4 show ?thesis by simp
qed

theorem stop_leaves_timers_witness:
  "pending (stop_stream (ascii ''id1'')
        (start_stream (JStr (ascii ''u'')) JUndefined JUndefined (ascii ''id1'') 0
           (startup [] {})))
     = pending (start_stream (JStr (ascii ''u'')) JUndefined JUndefined (ascii ''id1'') 0
           (startup [] {}))
   \<and> map_option (\<lambda>c. (responded c, pollTimer c, timeoutTimer c))
        (pending (on_timeout 0 (stop_stream (ascii ''id1'')
          (start_stream (JStr (ascii ''u'')) JUndefined JUndefined (ascii ''id1'') 0
             (startup [] {})))) 0)
       = Some (True, Timer False, Timer False)
   \<and> StreamDir (ascii ''id1'') \<notin> disk (stop_stream (ascii ''id1'')
        (start_stream (JStr (ascii ''u'')) JUndefined JUndefined (ascii ''id1'') 0
           (startup [] {})))"
proof -
  let ?s1 = "start_stream (JStr (ascii ''u'')) JUndefined JUndefined (ascii ''id1'') 0 (startup [] {})"
  let ?info = "\<lparr> info_rtspUrl = JStr (ascii ''u''), info_label = [], info_notes = [],
                 ffmpegProcess = 0, streamDir = StreamDir (ascii ''id1''),
                 playlistPath = StreamFile (ascii ''id1'') ''playlist.m3u8'', startTime = 0 \<rparr>"
  let ?c = "\<lparr> req_rtspUrl = JStr (ascii ''u''), req_label = JUndefined, req_notes = JUndefined,
              req_streamId = ascii ''id1'',
              req_playlistPath = StreamFile (ascii ''id1'') ''playlist.m3u8'',
              responded = False, pollTimer = Timer True, timeoutTimer = Timer True \<rparr>"
  have a: "map_of (activeStreams ?s1) (ascii ''id1'') = Some ?info"
    by (simp add: start_stream_def startup_def Let_def ascii_def sanitizeText_def)
  have b: "pending ?s1 0 = Some ?c"
    by (simp add: start_stream_def startup_def Let_def ascii_def)
  show ?thesis
    using stop_leaves_timers [where s = ?s1 and sid = "ascii ''id1''" and info = ?info
        and rid = 0 and c = ?c and st = 500 and b = StoppedBody and x = True] a b
    by simp
qed

end
